theory Spec2Isabelle
  imports Main
begin

section \<open>Values of the host language\<close>

text \<open>
  A JavaScript string is the list of its UTF-16 code units, each a natural number;
  \<open>str\<close> embeds an ASCII literal.  Numbers that the viewer computes itself (indices,
  counts, page numbers) are bounded by the length of an array, far below \<open>2 ^ 53\<close>,
  where the arithmetic of doubles is exact; they are modelled by \<^typ>\<open>int\<close> and
  \<^typ>\<open>nat\<close>.  The one function whose argument is not so bounded, \<open>toColLabel\<close>,
  is modelled with the rounding of doubles.
\<close>

type_synonym jsstring = "nat list"

definition str :: "string \<Rightarrow> jsstring" where
  "str s = map of_char s"

datatype error = Error jsstring | TypeError jsstring | SyntaxError jsstring

fun message :: "error \<Rightarrow> jsstring" where
  "message (Error m) = m"
| "message (TypeError m) = m"
| "message (SyntaxError m) = m"

text \<open>Decimal rendering of an integer, as a template literal produces it.\<close>

fun dec :: "nat \<Rightarrow> jsstring" where
  "dec n = (if n < 10 then [48 + n] else dec (n div 10) @ [48 + n mod 10])"

declare dec.simps [simp del]

definition dec_int :: "int \<Rightarrow> jsstring" where
  "dec_int i = (if i < 0 then str ''-'' @ dec (nat (- i)) else dec (nat i))"

text \<open>A field of a manifest entry: a string, or \<open>undefined\<close> when the field is absent.\<close>

datatype jsval = Undefined | Str jsstring

fun truthy :: "jsval \<Rightarrow> bool" where
  "truthy Undefined = False"
| "truthy (Str s) = (s \<noteq> [])"

text \<open>Conversion to a string by a template literal or by \<open>+\<close>.\<close>

fun to_text :: "jsval \<Rightarrow> jsstring" where
  "to_text Undefined = str ''undefined''"
| "to_text (Str s) = s"

text \<open>\<open>v || ""\<close>\<close>

fun or_empty :: "jsval \<Rightarrow> jsstring" where
  "or_empty Undefined = []"
| "or_empty (Str s) = s"

text \<open>\<open>s.replaceAll("_", " ")\<close>\<close>

definition replaceAll_underscore :: "jsstring \<Rightarrow> jsstring" where
  "replaceAll_underscore s = map (\<lambda>c. if c = 95 then 32 else c) s"

text \<open>
  A parsed JSON document.  A number is represented by the text that \<open>String\<close> yields
  for it (the viewer does no arithmetic on JSON numbers).  An object is the list of its
  own properties in enumeration order, keys distinct.
\<close>

datatype json =
    JNull
  | JBool bool
  | JNum jsstring
  | JStr jsstring
  | JArr "json list"
  | JObj "(jsstring \<times> json) list"

text \<open>
  \<open>String(v)\<close> on a JSON value.  An array is joined with commas, a null element
  contributing the empty string.  A plain object renders through the inherited
  \<open>toString\<close>; an own property of that name is not callable, and the conversion
  then throws.
\<close>

fun js_String :: "json \<Rightarrow> error + jsstring"
  and join_strings :: "json list \<Rightarrow> error + jsstring list" where
  "js_String JNull = Inr (str ''null'')"
| "js_String (JBool b) = Inr (if b then str ''true'' else str ''false'')"
| "js_String (JNum r) = Inr r"
| "js_String (JStr s) = Inr s"
| "js_String (JArr xs) =
     (case join_strings xs of
        Inl e \<Rightarrow> Inl e
      | Inr ss \<Rightarrow> Inr (concat (case ss of [] \<Rightarrow> [] | t # ts \<Rightarrow> t # map ((@) (str '','')) ts)))"
| "js_String (JObj kvs) =
     (if str ''toString'' \<in> set (map fst kvs)
      then Inl (TypeError (str ''Cannot convert object to primitive value''))
      else Inr (str ''[object Object]''))"
| "join_strings [] = Inr []"
| "join_strings (x # xs) =
     (case (if x = JNull then Inr [] else js_String x) of
        Inl e \<Rightarrow> Inl e
      | Inr s \<Rightarrow> (case join_strings xs of Inl e \<Rightarrow> Inl e | Inr ss \<Rightarrow> Inr (s # ss)))"

text \<open>\<open>arr.map(String)\<close>: the first element whose conversion throws aborts the map.\<close>

fun map_String :: "json list \<Rightarrow> error + jsstring list" where
  "map_String [] = Inr []"
| "map_String (x # xs) =
     (case js_String x of
        Inl e \<Rightarrow> Inl e
      | Inr s \<Rightarrow> (case map_String xs of Inl e \<Rightarrow> Inl e | Inr ss \<Rightarrow> Inr (s # ss)))"

text \<open>
  \<open>obj?.[k]\<close> for the four descriptor keys: only a plain object has such a property
  (none of the keys is inherited from a prototype); everything else gives \<open>undefined\<close>.
\<close>

fun own_property :: "json \<Rightarrow> jsstring \<Rightarrow> json option" where
  "own_property (JObj kvs) k = map_of kvs k"
| "own_property _ k = None"

fun is_JStr :: "json \<Rightarrow> bool" where
  "is_JStr (JStr s) = True"
| "is_JStr _ = False"

fun the_JStr :: "json \<Rightarrow> jsstring" where
  "the_JStr (JStr s) = s"
| "the_JStr _ = []"

section \<open>Descriptor normalisation\<close>

definition descriptor_keys :: "jsstring list" where
  "descriptor_keys =
     [str ''descriptors'', str ''attributes'', str ''captions'', str ''descriptor_list'']"

text \<open>The \<open>for (const k of [...])\<close> loop of \<open>normalizeDescriptorList\<close>.\<close>

fun first_array_key :: "json \<Rightarrow> jsstring list \<Rightarrow> json list option" where
  "first_array_key obj [] = None"
| "first_array_key obj (k # ks) =
     (case own_property obj k of
        Some (JArr xs) \<Rightarrow> Some xs
      | _ \<Rightarrow> first_array_key obj ks)"

definition normalizeDescriptorList :: "json \<Rightarrow> error + jsstring list" where
  "normalizeDescriptorList obj =
     (case obj of
        JArr xs \<Rightarrow> map_String xs
      | _ \<Rightarrow>
        (case first_array_key obj descriptor_keys of
           Some xs \<Rightarrow> map_String xs
         | None \<Rightarrow>
           (case obj of
              JObj kvs \<Rightarrow>
                (let vals = map snd kvs
                 in if list_all is_JStr vals then Inr (map the_JStr vals) else Inr [])
            | _ \<Rightarrow> Inr [])))"






section \<open>Post-processing of a descriptor list\<close>

text \<open>
  The code units that \<open>trim\<close> removes: white space (tab, vertical tab, form feed,
  space, no-break space, the other space separators, the byte order mark) and the line
  terminators.
\<close>

definition is_js_space :: "nat \<Rightarrow> bool" where
  "is_js_space c =
     (c \<in> set [9, 10, 11, 12, 13, 32, 160, 5760, 8232, 8233, 8239, 8287, 12288, 65279]
      \<or> (8192 \<le> c \<and> c \<le> 8202))"

definition js_trim :: "jsstring \<Rightarrow> jsstring" where
  "js_trim s = rev (dropWhile is_js_space (rev (dropWhile is_js_space s)))"

text \<open>
  \<open>Array.from(new Set(arr))\<close>: a set keeps its members in insertion order, and adding
  a member that is already present changes nothing.
\<close>

fun set_add_all :: "'a list \<Rightarrow> 'a list \<Rightarrow> 'a list" where
  "set_add_all seen [] = seen"
| "set_add_all seen (x # xs) = set_add_all (if x \<in> set seen then seen else seen @ [x]) xs"

definition uniq :: "'a list \<Rightarrow> 'a list" where
  "uniq arr = set_add_all [] arr"

text \<open>
  The value bound to \<open>out\<close> in \<open>loadDescriptorsForSpecies\<close>.  The elements of
  \<open>data\<close> are strings already, so \<open>String(s).trim()\<close> of one source file and
  \<open>s.trim()\<close> of the other agree.
\<close>

definition descriptor_out :: "jsstring list \<Rightarrow> jsstring list" where
  "descriptor_out data = uniq (filter (\<lambda>s. s \<noteq> []) (map js_trim data))"

text \<open>
  Keeping first occurrences, written after the specification: position \<open>i\<close> survives
  exactly when its element does not occur before \<open>i\<close>.
\<close>

definition keep_first :: "'a list \<Rightarrow> 'a list" where
  "keep_first xs = map ((!) xs) (filter (\<lambda>i. xs ! i \<notin> set (take i xs)) [0..<length xs])"

section \<open>The page: script state, document and observable effects\<close>

text \<open>
  The repository holds the viewer script twice: \<open>assets/app.js\<close> with one flat strip of
  numbered buttons and badged descriptor rows (suffix \<open>_flat\<close> below), and a second file
  with nine buttons per page, digit keys, shuffling and the descriptors of sibling
  species (suffix \<open>_paged\<close>).  Functions that read the same in both files are modelled
  once.

  The two manifests are taken in their documented format: the image index is an array
  of objects whose fields \<open>image_path\<close>, \<open>species\<close> and \<open>class_name\<close> are strings
  or absent, the class map is an object from class names to arrays of species names.
  Descriptor files are arbitrary JSON.

  A handler is modelled as running to its end, its render included, before the next
  event is handled.  Scrolling the active button into view leaves no trace in the model,
  and \<open>findClassForSpecies\<close>, which nothing calls, is left out.
\<close>

record entry =
  image_path :: jsval
  species :: jsval
  class_name :: jsval

text \<open>The handler attached to a button of the number strip.\<close>

datatype action = JumpTo int | NextPage

record button =
  className :: jsstring
  textContent :: jsstring
  title :: jsstring
  onclick :: action

text \<open>
  A list item of a descriptor list: plain text, markup, a badged row, or the placeholder
  row of the flat variant.
\<close>

datatype li =
    Li_text jsstring
  | Li_html jsstring
  | Li_row jsstring jsstring
  | Li_empty jsstring

text \<open>
  The global \<open>state\<close> object, the parts of the document that the script writes, and
  what leaves the page: requests, console output and rejections that nobody handles.
\<close>

record page =
  items :: "entry list"
  classToSpecies :: "jsstring \<rightharpoonup> jsstring list"
  idx :: int
  btnPage :: int
  cacheDescriptors :: "jsval \<rightharpoonup> jsstring list"
  meta :: jsstring
  bigTitle :: jsstring
  mainImg_src :: jsstring
  numstrip :: "button list"
  speciesList :: "li list"
  classList :: "li list"
  requests :: "jsstring list"
  console_warn :: "(jsstring \<times> error) list"
  console_error :: "error list"
  unhandled :: "error list"

definition blank_page :: page where
  "blank_page =
     \<lparr>items = [], classToSpecies = Map.empty, idx = 0, btnPage = 0,
      cacheDescriptors = Map.empty, meta = [], bigTitle = [], mainImg_src = [],
      numstrip = [], speciesList = [], classList = [], requests = [],
      console_warn = [], console_error = [], unhandled = []\<rparr>"

text \<open>
  What the network answers to a request: the request fails, or a response arrives with
  a status and a body that parses as JSON or does not.
\<close>

datatype 'a response = Rejected error | Response nat "error + 'a"

record network =
  images_index_json :: "entry list response"
  class_to_species_json :: "(jsstring \<rightharpoonup> jsstring list) response"
  descriptor_json :: "jsstring \<Rightarrow> json response"

definition IMAGE_BASE_URL :: jsstring where
  "IMAGE_BASE_URL = []"

definition DATA_DIR :: jsstring where
  "DATA_DIR = str ''data''"

definition DESCRIPTOR_DIR_flat :: jsstring where
  "DESCRIPTOR_DIR_flat = str ''site_descriptors''"

definition DESCRIPTOR_DIR_paged :: jsstring where
  "DESCRIPTOR_DIR_paged = str ''descriptors''"

definition fetchJson :: "jsstring \<Rightarrow> 'a response \<Rightarrow> page \<Rightarrow> (error + 'a) \<times> page" where
  "fetchJson path r p =
     (let p1 = p\<lparr>requests := requests p @ [path]\<rparr>
      in case r of
           Rejected e \<Rightarrow> (Inl e, p1)
         | Response status body \<Rightarrow>
             if \<not> (200 \<le> status \<and> status \<le> 299)
             then (Inl (Error (str ''Failed to fetch '' @ path @ str '': '' @ dec status)), p1)
             else (body, p1))"

section \<open>Loading descriptors\<close>

text \<open>The request path, and the body of the \<open>try\<close> block.\<close>

definition descriptor_path :: "jsstring \<Rightarrow> jsval \<Rightarrow> jsstring" where
  "descriptor_path dir sp = dir @ str ''/'' @ to_text sp @ str ''.json''"

definition try_load ::
  "jsstring \<Rightarrow> (jsstring \<Rightarrow> json response) \<Rightarrow> jsval \<Rightarrow> page \<Rightarrow> (error + jsstring list) \<times> page" where
  "try_load dir net sp p =
     (let path = descriptor_path dir sp
      in case fetchJson path (net path) p of
           (Inl e, p1) \<Rightarrow> (Inl e, p1)
         | (Inr obj, p1) \<Rightarrow> (normalizeDescriptorList obj, p1))"

text \<open>Everything after the cache test: \<open>try\<close>, \<open>catch\<close>, post-processing, cache update.\<close>

definition load_uncached ::
  "jsstring \<Rightarrow> (jsstring \<Rightarrow> json response) \<Rightarrow> jsval \<Rightarrow> page \<Rightarrow> jsstring list \<times> page" where
  "load_uncached dir net sp p =
     (case try_load dir net sp p of
        (r, p1) \<Rightarrow>
          (let p2 = (case r of
                       Inl e \<Rightarrow>
                         p1\<lparr>console_warn := console_warn p1 @
                              [(str ''Descriptor load failed for '' @ to_text sp @ str '':'', e)]\<rparr>
                     | Inr d \<Rightarrow> p1);
               data = (case r of Inl e \<Rightarrow> [] | Inr d \<Rightarrow> d);
               out = descriptor_out data
           in (out, p2\<lparr>cacheDescriptors := (cacheDescriptors p2)(sp \<mapsto> out)\<rparr>)))"

definition loadDescriptorsForSpecies ::
  "jsstring \<Rightarrow> (jsstring \<Rightarrow> json response) \<Rightarrow> jsval \<Rightarrow> page \<Rightarrow> jsstring list \<times> page" where
  "loadDescriptorsForSpecies dir net sp p =
     (case cacheDescriptors p sp of
        Some v \<Rightarrow> (v, p)
      | None \<Rightarrow> load_uncached dir net sp p)"

text \<open>
  \<open>Promise.all(otherSpecies.map(loadDescriptorsForSpecies))\<close>: every call tests the
  cache before any response has arrived, so all tests see the cache \<open>snap\<close> of that
  moment.  The results, the requests and the cache after all calls do not depend on the
  order in which the calls finish.  The order of their warnings does: the model lists
  them in request order, where the browser lists them as the calls fail, and nothing
  below states that order.
\<close>

fun promise_all_load ::
  "jsstring \<Rightarrow> (jsstring \<Rightarrow> json response) \<Rightarrow> (jsval \<rightharpoonup> jsstring list) \<Rightarrow> jsval list \<Rightarrow> page
     \<Rightarrow> jsstring list list \<times> page" where
  "promise_all_load dir net snap [] p = ([], p)"
| "promise_all_load dir net snap (sp # sps) p =
     (case (case snap sp of Some v \<Rightarrow> (v, p) | None \<Rightarrow> load_uncached dir net sp p) of
        (r, p1) \<Rightarrow>
          (case promise_all_load dir net snap sps p1 of
             (rs, p2) \<Rightarrow> (r # rs, p2)))"

section \<open>Navigation shared by both source files\<close>

definition clampIdx :: "page \<Rightarrow> page" where
  "clampIdx p =
     (let p1 = (if length (items p) = 0 then p\<lparr>idx := 0\<rparr> else p);
          p2 = (if idx p1 < 0 then p1\<lparr>idx := int (length (items p1)) - 1\<rparr> else p1)
      in if idx p2 \<ge> int (length (items p2)) then p2\<lparr>idx := 0\<rparr> else p2)"

text \<open>\<open>state.items[state.idx]\<close>, \<open>undefined\<close> outside the array.\<close>

definition current_item :: "page \<Rightarrow> entry option" where
  "current_item p =
     (if 0 \<le> idx p \<and> idx p < int (length (items p)) then Some (items p ! nat (idx p)) else None)"

definition setImage :: "entry \<Rightarrow> page \<Rightarrow> page" where
  "setImage item p = p\<lparr>mainImg_src := IMAGE_BASE_URL @ to_text (image_path item)\<rparr>"

text \<open>Lookup \<open>obj[k]\<close> on a plain object: names that every object inherits.\<close>

definition object_prototype_names :: "jsstring list" where
  "object_prototype_names =
     [str ''constructor'', str ''__proto__'', str ''hasOwnProperty'', str ''isPrototypeOf'',
      str ''propertyIsEnumerable'', str ''toLocaleString'', str ''toString'', str ''valueOf'',
      str ''__defineGetter__'', str ''__defineSetter__'', str ''__lookupGetter__'',
      str ''__lookupSetter__'']"

text \<open>
  What the user does: a click on the previous, next or shuffle button (with the indices
  that the shuffle will draw), a click on the \<open>k\<close>-th button of the number strip, or a
  key press with the key's name.
\<close>

datatype event = ClickPrev | ClickNext | ClickShuffle "nat \<Rightarrow> nat" | ClickNum nat | KeyDown jsstring

section \<open>The flat-strip source file\<close>

text \<open>
  \<open>toColLabel\<close> accepts any number, so its arithmetic is modelled on doubles.  A
  non-negative integer-valued double is the natural number it denotes; the doubles among
  the naturals are those of at most 53 significant bits.

  \<open>bit_length x\<close> is the number of binary digits of \<open>x\<close>.  \<open>to_double x\<close> is the
  double nearest to the integer \<open>x\<close>, a tie going to the even significand: the result
  of \<open>a + b\<close> and \<open>a - b\<close> whose exact value is \<open>x\<close>.
\<close>

fun bit_length :: "nat \<Rightarrow> nat" where
  "bit_length x = (if x = 0 then 0 else Suc (bit_length (x div 2)))"

declare bit_length.simps [simp del]

definition to_double :: "nat \<Rightarrow> nat" where
  "to_double x =
     (if x \<le> 2 ^ 53 then x
      else (let e = bit_length x - 53;
                s = x div 2 ^ e;
                r = x mod 2 ^ e
            in if 2 * r < 2 ^ e \<or> (2 * r = 2 ^ e \<and> even s) then s * 2 ^ e else (s + 1) * 2 ^ e))"

text \<open>
  \<open>Math.floor(m / 26)\<close>: the quotient is rounded to 53 significant bits, a tie going
  to the even significand, and then cut to an integer.  With \<open>l\<close> the bit length of
  the integer part of the quotient, the significand is the quotient scaled by
  \<open>2 ^ (53 - l)\<close> (by \<open>1 / 2 ^ (l - 53)\<close> for a long integer part) and rounded to an
  integer.  A quotient below 1 is at most \<open>25 / 26\<close> and rounds to a number below 1.
\<close>

definition floor_div26 :: "nat \<Rightarrow> nat" where
  "floor_div26 m =
     (if m < 26 then 0
      else (let l = bit_length (m div 26)
            in if l \<ge> 53
               then (let e = l - 53;
                         s = m div (26 * 2 ^ e);
                         r = m mod (26 * 2 ^ e)
                     in if 2 * r < 26 * 2 ^ e \<or> (2 * r = 26 * 2 ^ e \<and> even s)
                        then s * 2 ^ e else (s + 1) * 2 ^ e)
               else (let e = 53 - l;
                         s = (m * 2 ^ e) div 26;
                         r = (m * 2 ^ e) mod 26
                     in (if r < 13 \<or> (r = 13 \<and> even s) then s else s + 1) div 2 ^ e)))"

text \<open>
  The loop of \<open>toColLabel\<close>, with \<open>s\<close> the label built so far.  The remainder
  \<open>%\<close> of two doubles is exact.
\<close>

function toColLabel_loop :: "nat \<Rightarrow> jsstring \<Rightarrow> jsstring" where
  "toColLabel_loop n s =
     (if n > 0
      then toColLabel_loop (floor_div26 (to_double (n - 1))) ((65 + to_double (n - 1) mod 26) # s)
      else s)"
  by pat_completeness auto

definition toColLabel :: "nat \<Rightarrow> jsstring" where
  "toColLabel n0 = toColLabel_loop (to_double (n0 + 1)) []"

text \<open>Reading a label back as a number in bijective base 26.\<close>

definition col_number :: "jsstring \<Rightarrow> nat" where
  "col_number s = foldl (\<lambda>acc c. acc * 26 + (c - 64)) 0 s"

definition setBigTitle :: "entry \<Rightarrow> page \<Rightarrow> page" where
  "setBigTitle item p =
     p\<lparr>bigTitle := str ''Image '' @ dec_int (idx p + 1) @ str '' / '' @ dec (length (items p))
          @ [32, 8212, 32] @ or_empty (image_path item)\<rparr>"

definition setMetaText_flat :: "entry \<Rightarrow> page \<Rightarrow> page" where
  "setMetaText_flat item p =
     (let speciesPretty = replaceAll_underscore (or_empty (species item))
      in p\<lparr>meta := (if speciesPretty \<noteq> [] then str ''Species: '' @ speciesPretty else [])\<rparr>)"

definition renderNumButtons_flat :: "page \<Rightarrow> page" where
  "renderNumButtons_flat p =
     p\<lparr>numstrip :=
         map (\<lambda>i. \<lparr>className = str ''numBtn'' @ (if int i = idx p then str '' active'' else []),
                   textContent = dec (i + 1),
                   title = str ''Jump to image '' @ dec (i + 1),
                   onclick = JumpTo (int i)\<rparr>)
             [0..<length (items p)]\<rparr>"

text \<open>The row loop of \<open>renderDescriptorList\<close>, from index \<open>i\<close> on.\<close>

function descRows :: "jsstring list \<Rightarrow> nat \<Rightarrow> li list" where
  "descRows descs i =
     (if i < length descs then Li_row (toColLabel i) (descs ! i) # descRows descs (Suc i) else [])"
  by pat_completeness auto
termination
  by (relation "measure (\<lambda>(descs, i). length descs - i)") auto

declare descRows.simps [simp del]

definition renderDescriptorList :: "jsstring list \<Rightarrow> li list" where
  "renderDescriptorList descs =
     (if length descs = 0 then [Li_empty (str ''No descriptors found.'')] else descRows descs 0)"

definition renderDescriptors_flat :: "network \<Rightarrow> entry \<Rightarrow> page \<Rightarrow> page" where
  "renderDescriptors_flat net item p =
     (case loadDescriptorsForSpecies DESCRIPTOR_DIR_flat (descriptor_json net) (species item) p of
        (myDesc, p1) \<Rightarrow> p1\<lparr>speciesList := renderDescriptorList myDesc\<rparr>)"

definition render_flat :: "network \<Rightarrow> page \<Rightarrow> page" where
  "render_flat net p =
     (let p1 = clampIdx p
      in case current_item p1 of
           None \<Rightarrow> p1
         | Some item \<Rightarrow>
             renderDescriptors_flat net item
               (renderNumButtons_flat (setImage item (setMetaText_flat item (setBigTitle item p1)))))"

text \<open>
  The handlers that \<open>setupControls\<close> installs and the handlers of the numbered
  buttons.  The shuffle handler of this file is commented out.
\<close>

fun handle_flat :: "network \<Rightarrow> event \<Rightarrow> page \<Rightarrow> page" where
  "handle_flat net ClickPrev p = render_flat net (p\<lparr>idx := idx p - 1\<rparr>)"
| "handle_flat net ClickNext p = render_flat net (p\<lparr>idx := idx p + 1\<rparr>)"
| "handle_flat net (ClickShuffle rand) p = p"
| "handle_flat net (ClickNum k) p =
     (if k < length (numstrip p)
      then (case onclick (numstrip p ! k) of
              JumpTo i \<Rightarrow> render_flat net (p\<lparr>idx := i\<rparr>)
            | NextPage \<Rightarrow> p)
      else p)"
| "handle_flat net (KeyDown key) p =
     (if key = str ''ArrowLeft'' then render_flat net (p\<lparr>idx := idx p - 1\<rparr>)
      else if key = str ''ArrowRight'' then render_flat net (p\<lparr>idx := idx p + 1\<rparr>)
      else p)"

definition valid_entry :: "entry \<Rightarrow> bool" where
  "valid_entry x = (truthy (image_path x) \<and> truthy (species x))"

definition index_path :: jsstring where
  "index_path = DATA_DIR @ str ''/images_index.json''"

definition classes_path :: jsstring where
  "classes_path = DATA_DIR @ str ''/class_to_species.json''"

text \<open>\<open>main\<close> returns the error it throws, if any, with the page as it then is.\<close>

definition main_flat :: "network \<Rightarrow> page \<Rightarrow> error option \<times> page" where
  "main_flat net p =
     (case fetchJson index_path (images_index_json net) p of
        (Inl e, p1) \<Rightarrow> (Some e, p1)
      | (Inr its, p1) \<Rightarrow>
          (case fetchJson classes_path (class_to_species_json net)
                  (p1\<lparr>items := its\<rparr>) of
             (Inl e, p2) \<Rightarrow> (Some e, p2)
           | (Inr m, p2) \<Rightarrow>
               (let p3 = p2\<lparr>classToSpecies := m\<rparr>;
                    p4 = p3\<lparr>items := filter valid_entry (items p3)\<rparr>
                in (None, render_flat net p4))))"

text \<open>\<open>main().catch(...)\<close>, the last statement of the script.\<close>

definition start_flat :: "network \<Rightarrow> page \<Rightarrow> page" where
  "start_flat net p =
     (case main_flat net p of
        (None, p1) \<Rightarrow> p1
      | (Some err, p1) \<Rightarrow>
          p1\<lparr>console_error := console_error p1 @ [err],
             meta := str ''Error: '' @ message err\<rparr>)"

section \<open>The nine-per-page source file with sibling descriptors\<close>

definition setMetaText_paged :: "entry \<Rightarrow> page \<Rightarrow> error option \<times> page" where
  "setMetaText_paged item p =
     (case species item of
        Undefined \<Rightarrow>
          (Some (TypeError (str ''Cannot read properties of undefined (reading 'replaceAll')'')), p)
      | Str s \<Rightarrow>
          (None, p\<lparr>meta := dec_int (idx p + 1) @ str '' / '' @ dec (length (items p))
                       @ [32, 8226, 32] @ replaceAll_underscore s\<rparr>))"

definition renderNumButtons_paged :: "page \<Rightarrow> page" where
  "renderNumButtons_paged p =
     (let start = btnPage p * 9;
          end = min (start + 9) (int (length (items p)))
      in p\<lparr>numstrip :=
           map (\<lambda>i. \<lparr>className = str ''nbtn'' @ (if i = idx p then str '' active'' else []),
                     textContent = dec_int ((i - start) + 1),
                     title = str ''Jump to item '' @ dec_int (i + 1),
                     onclick = JumpTo i\<rparr>)
               [start..end - 1]
           @ [\<lparr>className = str ''nbtn'', textContent = str ''0'',
               title = str ''Next button page'', onclick = NextPage\<rparr>]\<rparr>)"

text \<open>The handler of the page-advance button, which the key \<open>0\<close> repeats.\<close>

definition advance_page :: "page \<Rightarrow> page" where
  "advance_page p =
     (let maxPage = (int (length (items p)) - 1) div 9
      in renderNumButtons_paged
           (p\<lparr>btnPage := (if btnPage p + 1 > maxPage then 0 else btnPage p + 1)\<rparr>))"

definition renderList :: "jsstring list \<Rightarrow> li list" where
  "renderList its =
     map Li_text its
     @ (if length its = 0
        then [Li_html (str ''<span style='' @ [34] @ str ''opacity:.8'' @ [34]
                       @ str ''>No descriptors found.</span>'')]
        else [])"

text \<open>
  \<open>(cls && state.classToSpecies[cls]) ? state.classToSpecies[cls].filter(...) : []\<close>.
  An inherited name that is not an own key yields a value without a \<open>filter\<close> method.
\<close>

definition otherSpecies :: "entry \<Rightarrow> page \<Rightarrow> error + jsstring list" where
  "otherSpecies item p =
     (case class_name item of
        Undefined \<Rightarrow> Inr []
      | Str cls \<Rightarrow>
          if cls = [] then Inr []
          else (case classToSpecies p cls of
                  Some sl \<Rightarrow> Inr (filter (\<lambda>s. Str s \<noteq> species item) sl)
                | None \<Rightarrow>
                    if cls \<in> set object_prototype_names
                    then Inl (TypeError (str ''state.classToSpecies[cls].filter is not a function''))
                    else Inr []))"

definition renderDescriptors_paged :: "network \<Rightarrow> entry \<Rightarrow> page \<Rightarrow> error option \<times> page" where
  "renderDescriptors_paged net item p =
     (case otherSpecies item p of
        Inl e \<Rightarrow> (Some e, p)
      | Inr others \<Rightarrow>
          (case loadDescriptorsForSpecies DESCRIPTOR_DIR_paged (descriptor_json net) (species item) p of
             (myDesc, p1) \<Rightarrow>
               (case (if length others > 0
                      then (case promise_all_load DESCRIPTOR_DIR_paged (descriptor_json net)
                                   (cacheDescriptors p1) (map Str others) p1 of
                              (all, p2) \<Rightarrow> (uniq (concat all), p2))
                      else ([], p1)) of
                  (classDesc, p2) \<Rightarrow>
                    (let otherOnly = filter (\<lambda>d. d \<notin> set myDesc) classDesc
                     in (None, p2\<lparr>speciesList := renderList myDesc,
                                    classList := renderList otherOnly\<rparr>)))))"

definition render_paged :: "network \<Rightarrow> page \<Rightarrow> error option \<times> page" where
  "render_paged net p =
     (let p1 = clampIdx p
      in case current_item p1 of
           None \<Rightarrow> (None, p1)
         | Some item \<Rightarrow>
             (case setMetaText_paged item (p1\<lparr>btnPage := idx p1 div 9\<rparr>) of
                (Some e, p2) \<Rightarrow> (Some e, p2)
              | (None, p2) \<Rightarrow>
                  renderDescriptors_paged net item (renderNumButtons_paged (setImage item p2))))"

text \<open>A handler calls \<open>render()\<close> and drops the promise: a rejection stays unhandled.\<close>

definition detached :: "error option \<times> page \<Rightarrow> page" where
  "detached r =
     (case r of
        (None, p) \<Rightarrow> p
      | (Some e, p) \<Rightarrow> p\<lparr>unhandled := unhandled p @ [e]\<rparr>)"

text \<open>
  The Fisher-Yates loop, \<open>i\<close> running down to 1; \<open>rand i\<close> is the index
  \<open>Math.floor(Math.random() * (i + 1))\<close> drawn in the round for \<open>i\<close>, at most \<open>i\<close>.
\<close>

fun shuffle_loop :: "(nat \<Rightarrow> nat) \<Rightarrow> nat \<Rightarrow> 'a list \<Rightarrow> 'a list" where
  "shuffle_loop rand 0 xs = xs"
| "shuffle_loop rand (Suc i) xs =
     shuffle_loop rand i (let j = rand (Suc i) in xs[Suc i := xs ! j, j := xs ! Suc i])"

text \<open>Comparison of strings by \<open><=\<close>: code unit by code unit.\<close>

fun js_le :: "jsstring \<Rightarrow> jsstring \<Rightarrow> bool" where
  "js_le [] t = True"
| "js_le (x # xs) [] = False"
| "js_le (x # xs) (y # ys) = (x < y \<or> (x = y \<and> js_le xs ys))"

text \<open>\<open>parseInt(s, 10)\<close> for a string that begins with a digit: its leading digits.\<close>

definition parseInt10 :: "jsstring \<Rightarrow> int" where
  "parseInt10 s = foldl (\<lambda>acc c. acc * 10 + int (c - 48)) 0 (takeWhile (\<lambda>c. 48 \<le> c \<and> c \<le> 57) s)"

definition keydown_paged :: "network \<Rightarrow> jsstring \<Rightarrow> page \<Rightarrow> page" where
  "keydown_paged net key p =
     (if key = str ''ArrowLeft'' then detached (render_paged net (p\<lparr>idx := idx p - 1\<rparr>))
      else if key = str ''ArrowRight'' then detached (render_paged net (p\<lparr>idx := idx p + 1\<rparr>))
      else if js_le (str ''1'') key \<and> js_le key (str ''9'') then
        (let offset = parseInt10 key - 1;
             i = btnPage p * 9 + offset
         in if i < int (length (items p)) then detached (render_paged net (p\<lparr>idx := i\<rparr>)) else p)
      else if key = str ''0'' then advance_page p
      else p)"

fun handle_paged :: "network \<Rightarrow> event \<Rightarrow> page \<Rightarrow> page" where
  "handle_paged net ClickPrev p = detached (render_paged net (p\<lparr>idx := idx p - 1\<rparr>))"
| "handle_paged net ClickNext p = detached (render_paged net (p\<lparr>idx := idx p + 1\<rparr>))"
| "handle_paged net (ClickShuffle rand) p =
     detached (render_paged net
       (p\<lparr>items := shuffle_loop rand (length (items p) - 1) (items p), idx := 0, btnPage := 0\<rparr>))"
| "handle_paged net (ClickNum k) p =
     (if k < length (numstrip p)
      then (case onclick (numstrip p ! k) of
              JumpTo i \<Rightarrow> detached (render_paged net (p\<lparr>idx := i\<rparr>))
            | NextPage \<Rightarrow> advance_page p)
      else p)"
| "handle_paged net (KeyDown key) p = keydown_paged net key p"

definition main_paged :: "network \<Rightarrow> page \<Rightarrow> error option \<times> page" where
  "main_paged net p =
     (case fetchJson index_path (images_index_json net) p of
        (Inl e, p1) \<Rightarrow> (Some e, p1)
      | (Inr its, p1) \<Rightarrow>
          (case fetchJson classes_path (class_to_species_json net)
                  (p1\<lparr>items := its\<rparr>) of
             (Inl e, p2) \<Rightarrow> (Some e, p2)
           | (Inr m, p2) \<Rightarrow>
               (let p3 = p2\<lparr>classToSpecies := m\<rparr>;
                    p4 = p3\<lparr>items := filter valid_entry (items p3)\<rparr>
                in render_paged net p4)))"

definition start_paged :: "network \<Rightarrow> page \<Rightarrow> page" where
  "start_paged net p =
     (case main_paged net p of
        (None, p1) \<Rightarrow> p1
      | (Some err, p1) \<Rightarrow>
          p1\<lparr>console_error := console_error p1 @ [err],
             meta := str ''Error: '' @ message err\<rparr>)"

text \<open>The valid positions of the pager.\<close>

definition idx_ok :: "page \<Rightarrow> bool" where
  "idx_ok p =
     (if items p = [] then idx p = 0 else 0 \<le> idx p \<and> idx p < int (length (items p)))"

text \<open>The clamp and wrap rule, as the specification words it.\<close>

definition wrap :: "int \<Rightarrow> int \<Rightarrow> int" where
  "wrap n t = (if n = 0 then 0 else if t < 0 then n - 1 else if t \<ge> n then 0 else t)"

section \<open>Notions of the specification\<close>

text \<open>
  A request fails when no response arrives, when the status is not a success status, or
  when the body is not valid JSON; it yields a value when the status is a success status
  and the body parses.
\<close>

definition fetch_fails :: "jsstring \<Rightarrow> 'a response \<Rightarrow> error \<Rightarrow> bool" where
  "fetch_fails path r e =
     (case r of
        Rejected e' \<Rightarrow> e = e'
      | Response st body \<Rightarrow>
          if 200 \<le> st \<and> st \<le> 299 then body = Inl e
          else e = Error (str ''Failed to fetch '' @ path @ str '': '' @ dec st))"

definition fetch_yields :: "'a response \<Rightarrow> 'a \<Rightarrow> bool" where
  "fetch_yields r v =
     (case r of
        Rejected e \<Rightarrow> False
      | Response st body \<Rightarrow> 200 \<le> st \<and> st \<le> 299 \<and> body = Inr v)"

text \<open>
  The class-only list, written after the specification: the deduplicated union of the
  sibling lists without the descriptors of the own list.
\<close>

definition class_only :: "jsstring list \<Rightarrow> jsstring list list \<Rightarrow> jsstring list" where
  "class_only own siblings = filter (\<lambda>d. d \<notin> set own) (keep_first (concat siblings))"

section \<open>Concrete pages and networks\<close>

definition offline :: network where
  "offline =
     \<lparr>images_index_json = Rejected (TypeError (str ''Failed to fetch'')),
      class_to_species_json = Rejected (TypeError (str ''Failed to fetch'')),
      descriptor_json = (\<lambda>path. Rejected (TypeError (str ''Failed to fetch'')))\<rparr>"

definition plain_entry :: "string \<Rightarrow> string \<Rightarrow> entry" where
  "plain_entry path sp = \<lparr>image_path = Str (str path), species = Str (str sp), class_name = Undefined\<rparr>"

definition three_items :: page where
  "three_items =
     blank_page\<lparr>items := [plain_entry ''img/1.jpg'' ''rosa_canina'',
                           plain_entry ''img/2.jpg'' ''rosa_canina'',
                           plain_entry ''img/3.jpg'' ''acer_rubrum''],
                 idx := 1\<rparr>"

definition stale_strip :: page where
  "stale_strip =
     three_items\<lparr>numstrip := [\<lparr>className = [], textContent = [], title = [], onclick = JumpTo 7\<rparr>]\<rparr>"

definition not_found :: network where
  "not_found =
     \<lparr>images_index_json = Response 404 (Inl (SyntaxError (str ''Unexpected token <''))),
      class_to_species_json = Response 404 (Inl (SyntaxError (str ''Unexpected token <''))),
      descriptor_json = (\<lambda>path. Response 404 (Inl (SyntaxError (str ''Unexpected token <''))))\<rparr>"

definition class_item :: entry where
  "class_item = \<lparr>image_path = Str (str ''img/b.jpg''), species = Str (str ''b''), class_name = Str (str ''0'')\<rparr>"

definition class_map :: "jsstring \<rightharpoonup> jsstring list" where
  "class_map = [str ''0'' \<mapsto> [str ''a'', str ''b'', str ''c'']]"

definition class_page :: page where
  "class_page = blank_page\<lparr>items := [class_item], classToSpecies := class_map\<rparr>"

definition class_net :: network where
  "class_net =
     \<lparr>images_index_json =
        Response 200 (Inr [class_item,
                           \<lparr>image_path = Str [], species = Str (str ''a''), class_name = Str (str ''0'')\<rparr>,
                           \<lparr>image_path = Str (str ''img/c.jpg''), species = Undefined, class_name = Undefined\<rparr>]),
      class_to_species_json = Response 200 (Inr class_map),
      descriptor_json =
        (\<lambda>path. if path = str ''descriptors/a.json'' then Response 200 (Inr (JArr [JStr (str ''x'')]))
                else if path = str ''descriptors/b.json''
                  then Response 200 (Inr (JObj [(str ''descriptors'', JArr [JStr (str ''x'')])]))
                else if path = str ''descriptors/c.json''
                  then Response 200 (Inr (JArr [JStr (str ''y''), JStr (str ''x'')]))
                else Response 404 (Inl (SyntaxError (str ''Unexpected token <''))))\<rparr>"

definition unnamed_class_item :: entry where
  "unnamed_class_item = \<lparr>image_path = Str (str ''img/b.jpg''), species = Str (str ''b''), class_name = Str []\<rparr>"

definition unnamed_class_page :: page where
  "unnamed_class_page =
     blank_page\<lparr>items := [unnamed_class_item],
                 classToSpecies := [[] \<mapsto> [str ''a'', str ''b'', str ''c'']]\<rparr>"


section \<open>Facts about descriptor normalisation\<close>







section \<open>Facts about first occurrences and trimming\<close>

lemma keep_first_Cons: "keep_first (x # xs) = x # filter (\<lambda>y. y \<noteq> x) (keep_first xs)"
proof -
  have idx: "[0..<length (x # xs)] = 0 # map Suc [0..<length xs]"
    by (simp add: upt_conv_Cons map_Suc_upt del: upt_Suc)
  show ?thesis
    unfolding keep_first_def idx
    by (simp add: filter_map comp_def conj_commute)
qed

lemma set_add_all_keep_first:
  "set_add_all seen xs = seen @ filter (\<lambda>x. x \<notin> set seen) (keep_first xs)"
proof (induction xs arbitrary: seen)
  case Nil
  show ?case by (simp add: keep_first_def)
next
  case (Cons x xs)
  show ?case
  proof (cases "x \<in> set seen")
    case True
    then have "filter (\<lambda>y. y \<notin> set seen) (filter (\<lambda>y. y \<noteq> x) (keep_first xs))
                 = filter (\<lambda>y. y \<notin> set seen) (keep_first xs)"
      by (auto intro: filter_cong)
    with True Cons.IH [of seen] show ?thesis
      by (simp add: keep_first_Cons)
  next
    case False
    have "filter (\<lambda>y. y \<notin> set (seen @ [x])) (keep_first xs)
            = filter (\<lambda>y. y \<notin> set seen) (filter (\<lambda>y. y \<noteq> x) (keep_first xs))"
      by (auto intro: filter_cong)
    with False Cons.IH [of "seen @ [x]"] show ?thesis
      by (simp add: keep_first_Cons)
  qed
qed

lemma uniq_keep_first: "uniq xs = keep_first xs"
  by (simp add: uniq_def set_add_all_keep_first)

lemma keep_first_Nil: "keep_first [] = []"
  by (simp add: keep_first_def)

lemma set_keep_first: "set (keep_first xs) = set xs"
  by (induction xs) (auto simp: keep_first_Cons keep_first_Nil)

lemma distinct_keep_first: "distinct (keep_first xs)"
  by (induction xs) (auto simp: keep_first_Cons keep_first_Nil set_keep_first)

lemma js_trim_split:
  "s = takeWhile is_js_space s @ js_trim s @ rev (takeWhile is_js_space (rev (dropWhile is_js_space s)))"
proof -
  let ?d = "dropWhile is_js_space s"
  have "rev (rev ?d) = rev (takeWhile is_js_space (rev ?d) @ dropWhile is_js_space (rev ?d))"
    by simp
  then have d: "?d = js_trim s @ rev (takeWhile is_js_space (rev ?d))"
    unfolding js_trim_def rev_append rev_rev_ident .
  have "s = takeWhile is_js_space s @ ?d"
    by simp
  also have "takeWhile is_js_space s @ ?d
      = takeWhile is_js_space s @ js_trim s @ rev (takeWhile is_js_space (rev ?d))"
    using d by (rule arg_cong)
  finally show ?thesis .
qed

lemma js_trim_ends:
  assumes "js_trim s \<noteq> []"
  shows "\<not> is_js_space (hd (js_trim s))" and "\<not> is_js_space (last (js_trim s))"
proof -
  let ?d = "dropWhile is_js_space s"
  let ?e = "dropWhile is_js_space (rev ?d)"
  from assms have e: "?e \<noteq> []" by (simp add: js_trim_def)
  then have "\<not> is_js_space (hd ?e)" by (rule hd_dropWhile)
  with e show "\<not> is_js_space (last (js_trim s))"
    by (simp add: js_trim_def last_rev)
  from e have d: "?d \<noteq> []" by (cases "?d") simp_all
  then have hd_d: "\<not> is_js_space (hd ?d)" by (rule hd_dropWhile)
  have "rev (rev ?d) = rev (takeWhile is_js_space (rev ?d) @ ?e)"
    by simp
  then have "?d = js_trim s @ rev (takeWhile is_js_space (rev ?d))"
    unfolding js_trim_def rev_append rev_rev_ident .
  then have "hd ?d = hd (js_trim s @ rev (takeWhile is_js_space (rev ?d)))"
    by (rule arg_cong)
  with assms have "hd ?d = hd (js_trim s)"
    by simp
  with hd_d show "\<not> is_js_space (hd (js_trim s))" by simp
qed

section \<open>Navigation leaves the image list alone\<close>

lemma items_clampIdx: "items (clampIdx p) = items p"
  by (simp add: clampIdx_def Let_def)

lemma idx_clampIdx: "idx (clampIdx p) = wrap (int (length (items p))) (idx p)"
  by (simp add: clampIdx_def wrap_def Let_def)

lemma nav_fetchJson:
  "idx (snd (fetchJson path r p)) = idx p" "items (snd (fetchJson path r p)) = items p"
  by (simp_all add: fetchJson_def Let_def split: response.splits)

lemma nav_try_load:
  "idx (snd (try_load dir net sp p)) = idx p" "items (snd (try_load dir net sp p)) = items p"
  using nav_fetchJson [of "descriptor_path dir sp" "net (descriptor_path dir sp)" p]
  by (simp_all add: try_load_def Let_def split_def split: sum.splits)

lemma nav_load_uncached:
  "idx (snd (load_uncached dir net sp p)) = idx p"
  "items (snd (load_uncached dir net sp p)) = items p"
  using nav_try_load [of dir net sp p]
  by (simp_all add: load_uncached_def Let_def split_def split: sum.splits)

lemma nav_load:
  "idx (snd (loadDescriptorsForSpecies dir net sp p)) = idx p"
  "items (snd (loadDescriptorsForSpecies dir net sp p)) = items p"
  by (simp_all add: loadDescriptorsForSpecies_def nav_load_uncached split: option.splits)

lemma nav_promise_all_load:
  "idx (snd (promise_all_load dir net snap sps p)) = idx p \<and>
   items (snd (promise_all_load dir net snap sps p)) = items p"
proof (induction sps arbitrary: p)
  case Nil
  show ?case by simp
next
  case (Cons sp sps)
  show ?case
  proof (cases "snap sp")
    case None
    with Cons.IH [of "snd (load_uncached dir net sp p)"] show ?thesis
      by (simp add: nav_load_uncached split_def)
  next
    case (Some v)
    with Cons.IH [of p] show ?thesis
      by (simp add: split_def)
  qed
qed

lemma nav_renderDescriptors_flat:
  "idx (renderDescriptors_flat net item p) = idx p"
  "items (renderDescriptors_flat net item p) = items p"
  using nav_load [of DESCRIPTOR_DIR_flat "descriptor_json net" "species item" p]
  by (simp_all add: renderDescriptors_flat_def split_def)

lemma nav_render_flat:
  "idx (render_flat net p) = wrap (int (length (items p))) (idx p)"
  "items (render_flat net p) = items p"
  by (simp_all add: render_flat_def Let_def nav_renderDescriptors_flat renderNumButtons_flat_def
      setImage_def setMetaText_flat_def setBigTitle_def idx_clampIdx items_clampIdx
      split: option.splits)

lemma nav_renderDescriptors_paged:
  "idx (snd (renderDescriptors_paged net item p)) = idx p"
  "items (snd (renderDescriptors_paged net item p)) = items p"
  using nav_load [of DESCRIPTOR_DIR_paged "descriptor_json net" "species item" p]
    nav_promise_all_load [of DESCRIPTOR_DIR_paged "descriptor_json net"]
  by (simp_all add: renderDescriptors_paged_def Let_def split_def split: sum.splits)

lemma nav_render_paged:
  "idx (snd (render_paged net p)) = wrap (int (length (items p))) (idx p)"
  "items (snd (render_paged net p)) = items p"
  by (simp_all add: render_paged_def Let_def nav_renderDescriptors_paged
      renderNumButtons_paged_def setImage_def setMetaText_paged_def idx_clampIdx items_clampIdx
      split_def split: option.splits jsval.splits)

lemma nav_detached: "idx (detached r) = idx (snd r)" "items (detached r) = items (snd r)"
  by (simp_all add: detached_def split_def split: option.splits)

lemma nav_advance_page: "idx (advance_page p) = idx p" "items (advance_page p) = items p"
  by (simp_all add: advance_page_def renderNumButtons_paged_def Let_def)

lemma length_shuffle_loop: "length (shuffle_loop rand i xs) = length xs"
  by (induction i arbitrary: xs) (simp_all add: Let_def)

lemma idx_ok_wrapped: "idx q = wrap (int (length (items q))) t \<Longrightarrow> idx_ok q"
  by (auto simp: idx_ok_def wrap_def split: if_splits)

lemma idx_ok_render_flat: "idx_ok (render_flat net p)"
  by (rule idx_ok_wrapped [of _ "idx p"]) (simp add: nav_render_flat)

lemma idx_ok_render_paged: "idx_ok (snd (render_paged net p))"
  by (rule idx_ok_wrapped [of _ "idx p"]) (simp add: nav_render_paged)

lemma idx_ok_detached_render: "idx_ok (detached (render_paged net p))"
  using idx_ok_render_paged [of net p] by (simp add: idx_ok_def nav_detached)

lemma idx_ok_frame: "idx q = idx p \<Longrightarrow> items q = items p \<Longrightarrow> idx_ok p \<Longrightarrow> idx_ok q"
  by (simp add: idx_ok_def)

lemma idx_ok_handle_flat: "idx_ok p \<Longrightarrow> idx_ok (handle_flat net e p)"
  by (cases e) (simp_all add: idx_ok_render_flat split: action.splits)

lemma idx_ok_keydown_paged: "idx_ok p \<Longrightarrow> idx_ok (keydown_paged net key p)"
  by (simp add: keydown_paged_def Let_def idx_ok_detached_render
      idx_ok_frame [OF nav_advance_page])

lemma idx_ok_handle_paged: "idx_ok p \<Longrightarrow> idx_ok (handle_paged net e p)"
  by (cases e) (simp_all add: idx_ok_detached_render idx_ok_keydown_paged
      idx_ok_frame [OF nav_advance_page] split: action.splits)

lemma length_items_handle_flat: "length (items (handle_flat net e p)) = length (items p)"
  by (cases e) (simp_all add: nav_render_flat split: action.splits)

lemma length_items_handle_paged: "length (items (handle_paged net e p)) = length (items p)"
  by (cases e) (simp_all add: nav_render_paged nav_detached nav_advance_page keydown_paged_def
      Let_def length_shuffle_loop split: action.splits)

lemma idx_ok_range:
  assumes "idx_ok q" and "length (items q) = length (items p)"
  shows "if items p = [] then idx q = 0 else 0 \<le> idx q \<and> idx q < int (length (items p))"
proof (cases "items p = []")
  case True
  with assms have "items q = []" by simp
  with assms(1) True show ?thesis by (simp add: idx_ok_def)
next
  case False
  with assms have "items q \<noteq> []" by auto
  with assms False show ?thesis by (simp add: idx_ok_def)
qed

lemma run_flat:
  "idx_ok p \<Longrightarrow>
     idx_ok (foldl (\<lambda>q e. handle_flat net e q) p es) \<and>
     length (items (foldl (\<lambda>q e. handle_flat net e q) p es)) = length (items p)"
  by (induction es arbitrary: p) (simp_all add: idx_ok_handle_flat length_items_handle_flat)

lemma run_paged:
  "idx_ok p \<Longrightarrow>
     idx_ok (foldl (\<lambda>q e. handle_paged net e q) p es) \<and>
     length (items (foldl (\<lambda>q e. handle_paged net e q) p es)) = length (items p)"
  by (induction es arbitrary: p) (simp_all add: idx_ok_handle_paged length_items_handle_paged)

lemma render_flat_empty: "items q = [] \<Longrightarrow> render_flat net q = q\<lparr>idx := 0\<rparr>"
  by (simp add: render_flat_def clampIdx_def current_item_def Let_def)

lemma render_paged_empty: "items q = [] \<Longrightarrow> render_paged net q = (None, q\<lparr>idx := 0\<rparr>)"
  by (simp add: render_paged_def clampIdx_def current_item_def Let_def)

lemma wrap_next_prev:
  "0 \<le> i \<Longrightarrow> i < n \<Longrightarrow> wrap n (wrap n (i + 1) - 1) = i"
  "0 \<le> i \<Longrightarrow> i < n \<Longrightarrow> wrap n (wrap n (i - 1) + 1) = i"
  by (simp_all add: wrap_def)

lemma wrap_mod:
  "0 \<le> i \<Longrightarrow> i < n \<Longrightarrow> wrap n (i + 1) = (i + 1) mod n"
  "0 \<le> i \<Longrightarrow> i < n \<Longrightarrow> wrap n (i - 1) = (i - 1) mod n"
proof -
  assume a: "0 \<le> i" "i < n"
  show "wrap n (i + 1) = (i + 1) mod n"
  proof (cases "i + 1 = n")
    case True
    with a show ?thesis by (simp add: wrap_def)
  next
    case False
    with a show ?thesis by (simp add: wrap_def)
  qed
  show "wrap n (i - 1) = (i - 1) mod n"
  proof (cases "i = 0")
    case True
    with a have "(i - 1) mod n = n - 1"
      by (simp add: zmod_minus1)
    with True a show ?thesis by (simp add: wrap_def)
  next
    case False
    with a show ?thesis by (simp add: wrap_def)
  qed
qed

lemma idx_next_flat: "idx (handle_flat net ClickNext p) = wrap (int (length (items p))) (idx p + 1)"
  by (simp add: nav_render_flat)

lemma idx_prev_flat: "idx (handle_flat net ClickPrev p) = wrap (int (length (items p))) (idx p - 1)"
  by (simp add: nav_render_flat)

lemma idx_next_paged: "idx (handle_paged net ClickNext p) = wrap (int (length (items p))) (idx p + 1)"
  by (simp add: nav_render_paged nav_detached)

lemma idx_prev_paged: "idx (handle_paged net ClickPrev p) = wrap (int (length (items p))) (idx p - 1)"
  by (simp add: nav_render_paged nav_detached)

lemma digit_key:
  assumes "1 \<le> d" "d \<le> 9"
  shows "dec d = [48 + d]" "dec d \<noteq> str ''ArrowLeft''" "dec d \<noteq> str ''ArrowRight''"
    "js_le (str ''1'') (dec d)" "js_le (dec d) (str ''9'')" "parseInt10 (dec d) = int d"
proof -
  from assms show d: "dec d = [48 + d]" by (simp add: dec.simps)
  show "dec d \<noteq> str ''ArrowLeft''" "dec d \<noteq> str ''ArrowRight''"
    by (simp_all add: d str_def)
  from assms show "js_le (str ''1'') (dec d)" "js_le (dec d) (str ''9'')"
    by (auto simp: d str_def)
  from assms show "parseInt10 (dec d) = int d"
    by (simp add: d parseInt10_def)
qed

section \<open>Loading and caching\<close>

lemma snd_fetchJson: "snd (fetchJson path r p) = p\<lparr>requests := requests p @ [path]\<rparr>"
  by (simp add: fetchJson_def Let_def split: response.splits)

lemma fst_fetchJson:
  "fst (fetchJson path r p) =
     (case r of
        Rejected e \<Rightarrow> Inl e
      | Response st body \<Rightarrow>
          if \<not> (200 \<le> st \<and> st \<le> 299)
          then Inl (Error (str ''Failed to fetch '' @ path @ str '': '' @ dec st))
          else body)"
  by (simp add: fetchJson_def Let_def split: response.splits)

lemma snd_try_load:
  "snd (try_load dir net sp p) = p\<lparr>requests := requests p @ [descriptor_path dir sp]\<rparr>"
  by (simp add: try_load_def Let_def split_def snd_fetchJson split: sum.splits)

lemma fst_try_load:
  "fst (try_load dir net sp p) =
     (case fst (fetchJson (descriptor_path dir sp) (net (descriptor_path dir sp)) p) of
        Inl e \<Rightarrow> Inl e
      | Inr obj \<Rightarrow> normalizeDescriptorList obj)"
  by (simp add: try_load_def Let_def split_def split: sum.splits)

lemma load_uncached_failure:
  assumes "fst (try_load dir net sp p) = Inl e"
  shows "load_uncached dir net sp p =
     ([], p\<lparr>requests := requests p @ [descriptor_path dir sp],
             console_warn := console_warn p @
               [(str ''Descriptor load failed for '' @ to_text sp @ str '':'', e)],
             cacheDescriptors := (cacheDescriptors p)(sp \<mapsto> [])\<rparr>)"
  using assms
  by (simp add: load_uncached_def split_def Let_def snd_try_load descriptor_out_def uniq_def)

lemma try_load_fails:
  assumes "fetch_fails (descriptor_path dir sp) (net (descriptor_path dir sp)) e
      \<or> (\<exists>obj. fetch_yields (net (descriptor_path dir sp)) obj \<and> normalizeDescriptorList obj = Inl e)"
  shows "fst (try_load dir net sp p) = Inl e"
  using assms
  by (auto simp: fst_try_load fst_fetchJson fetch_fails_def fetch_yields_def
      split: response.splits if_splits)

lemma load_uncached_cache:
  "cacheDescriptors (snd (load_uncached dir net s p)) =
     (cacheDescriptors p)(s \<mapsto> fst (load_uncached dir net s p))"
  by (simp add: load_uncached_def split_def Let_def snd_try_load split: sum.splits)



lemma load_cache:
  "cacheDescriptors (snd (loadDescriptorsForSpecies dir net s p)) =
     (case cacheDescriptors p s of
        Some v \<Rightarrow> cacheDescriptors p
      | None \<Rightarrow> (cacheDescriptors p)(s \<mapsto> fst (loadDescriptorsForSpecies dir net s p)))"
  by (simp add: loadDescriptorsForSpecies_def load_uncached_cache split: option.splits)















section \<open>Column labels and post-processing\<close>

lemma bit_length_lower: "x > 0 \<Longrightarrow> 2 ^ (bit_length x - 1) \<le> x"
proof (induction x rule: less_induct)
  case (less x)
  show ?case
  proof (cases "x div 2 = 0")
    case True
    with less.prems show ?thesis
      by (simp add: bit_length.simps [of x] bit_length.simps [of 0])
  next
    case False
    then have "x div 2 < x" "x div 2 > 0" by simp_all
    then have "2 ^ (bit_length (x div 2) - 1) \<le> x div 2"
      by (rule less.IH)
    moreover have "bit_length (x div 2) > 0"
      using False by (simp add: bit_length.simps [of "x div 2"])
    ultimately have "2 ^ bit_length (x div 2) \<le> 2 * (x div 2)"
      by (cases "bit_length (x div 2)") simp_all
    also have "\<dots> \<le> x" by simp
    finally show ?thesis
      using less.prems by (simp add: bit_length.simps [of x])
  qed
qed

lemma bit_length_upper: "x < 2 ^ n \<Longrightarrow> bit_length x \<le> n"
proof (induction n arbitrary: x)
  case 0
  then show ?case by (simp add: bit_length.simps)
next
  case (Suc n)
  then have "x div 2 < 2 ^ n" by simp
  then have "bit_length (x div 2) \<le> n" by (rule Suc.IH)
  then show ?case by (simp add: bit_length.simps [of x])
qed

lemma to_double_le: "to_double x \<le> 2 * x"
proof (cases "x \<le> 2 ^ 53")
  case True
  then show ?thesis by (simp add: to_double_def)
next
  case False
  define e where "e = bit_length x - 53"
  define s where "s = x div 2 ^ e"
  from False have x: "x > 0" by simp
  have "(2::nat) ^ e \<le> 2 ^ (bit_length x - 1)"
    unfolding e_def by (rule power_increasing) simp_all
  also have "\<dots> \<le> x" using x by (rule bit_length_lower)
  finally have pe: "2 ^ e \<le> x" .
  have "s * 2 ^ e \<le> x" unfolding s_def by simp
  with pe have "s * 2 ^ e \<le> 2 * x" "(s + 1) * 2 ^ e \<le> 2 * x"
    by (simp_all add: algebra_simps)
  with False show ?thesis
    by (simp add: to_double_def Let_def e_def [symmetric] s_def [symmetric])
qed

lemma floor_div26_le: "13 * floor_div26 m \<le> m"
proof (cases "m < 26")
  case True
  then show ?thesis by (simp add: floor_div26_def)
next
  case big: False
  define l where "l = bit_length (m div 26)"
  have k: "m div 26 > 0" using big by simp
  show ?thesis
  proof (cases "l \<ge> 53")
    case True
    define e where "e = l - 53"
    define s where "s = m div (26 * 2 ^ e)"
    have "(2::nat) ^ e \<le> 2 ^ (l - 1)"
      unfolding e_def by (rule power_increasing) simp_all
    also have "\<dots> \<le> m div 26" unfolding l_def using k by (rule bit_length_lower)
    finally have "26 * 2 ^ e \<le> 26 * (m div 26)" by simp
    also have "\<dots> \<le> m" by simp
    finally have d: "26 * 2 ^ e \<le> m" .
    then have "s \<ge> 1" unfolding s_def by (simp add: div_greater_zero_iff Suc_le_eq)
    define A where "A = s * 2 ^ e"
    define B where "B = (s + 1) * 2 ^ e"
    have "B = A + 2 ^ e" unfolding A_def B_def by (simp add: algebra_simps)
    moreover have "2 ^ e \<le> A" unfolding A_def using \<open>s \<ge> 1\<close> by simp
    moreover have "26 * A \<le> m"
    proof -
      have "s * (26 * 2 ^ e) \<le> m" unfolding s_def by simp
      then show ?thesis unfolding A_def by (simp add: mult.assoc mult.left_commute)
    qed
    ultimately have "13 * A \<le> m" "13 * B \<le> m" by simp_all
    then have "13 * (s * 2 ^ e) \<le> m" "13 * ((s + 1) * 2 ^ e) \<le> m"
      unfolding A_def B_def .
    with big True show ?thesis
      by (simp add: floor_div26_def Let_def l_def [symmetric] e_def [symmetric] s_def [symmetric])
  next
    case False
    define e where "e = 53 - l"
    define s where "s = (m * 2 ^ e) div 26"
    define s' where "s' = (if (m * 2 ^ e) mod 26 < 13 \<or> ((m * 2 ^ e) mod 26 = 13 \<and> even s) then s else s + 1)"
    define Q :: nat where "Q = 2 ^ e"
    have Q: "Q > 0" unfolding Q_def by simp
    have "m * 1 \<le> m * Q" using Q by (intro mult_le_mono2) simp
    then have "m \<le> m * Q" by (simp only: mult_1_right)
    with big have "m * Q \<ge> 26" by linarith
    then have "s \<ge> 1" unfolding s_def Q_def by (simp add: div_greater_zero_iff Suc_le_eq)
    then have "s' \<le> 2 * s" unfolding s'_def by simp
    moreover have "26 * s \<le> m * Q" unfolding s_def Q_def by simp
    ultimately have a: "13 * s' \<le> m * Q" by simp
    have b: "(s' div Q) * Q \<le> s'" by simp
    have "(13 * (s' div Q)) * Q = 13 * ((s' div Q) * Q)" by simp
    also have "\<dots> \<le> 13 * s'" using b by simp
    also have "\<dots> \<le> m * Q" by (rule a)
    finally have "13 * (s' div Q) \<le> m" using Q by simp
    then have "13 * (s' div 2 ^ e) \<le> m" unfolding Q_def .
    moreover have "floor_div26 m = s' div 2 ^ e"
      using big False
      by (simp add: floor_div26_def Let_def l_def [symmetric] e_def [symmetric] s_def s'_def)
    ultimately show ?thesis by simp
  qed
qed

lemma loop_decreases: "n > 0 \<Longrightarrow> floor_div26 (to_double (n - 1)) < n"
proof -
  assume "n > 0"
  have "13 * floor_div26 (to_double (n - 1)) \<le> to_double (n - 1)" by (rule floor_div26_le)
  also have "\<dots> \<le> 2 * (n - 1)" by (rule to_double_le)
  finally show ?thesis using \<open>n > 0\<close> by simp
qed

lemma floor_div26_exact:
  assumes "m < 2 ^ 53"
  shows "floor_div26 m = m div 26"
proof (cases "m < 26")
  case True
  then show ?thesis by (simp add: floor_div26_def)
next
  case big: False
  define k where "k = m div 26"
  define j where "j = m mod 26"
  define l where "l = bit_length k"
  have "k < 2 ^ 49" using assms unfolding k_def by simp
  then have l: "l \<le> 49" unfolding l_def by (rule bit_length_upper)
  define P :: nat where "P = 2 ^ (53 - l)"
  have "(2::nat) ^ 4 \<le> 2 ^ (53 - l)" using l by (intro power_increasing) simp_all
  then have P: "P \<ge> 16" unfolding P_def by simp
  define t where "t = (j * P) div 26"
  define r where "r = (j * P) mod 26"
  have m: "m = 26 * k + j" unfolding k_def j_def by simp
  have j: "j < 26" unfolding j_def by simp
  have mp: "m * P = j * P + (k * P) * 26"
    unfolding m by (simp add: algebra_simps)
  have s: "(m * P) div 26 = k * P + t" "(m * P) mod 26 = r"
    unfolding mp t_def r_def by simp_all
  have jp: "26 * t + r = j * P" unfolding t_def r_def by simp
  have "j * P \<le> 25 * P" using j by simp
  with jp have bound: "26 * t + r \<le> 25 * P" by simp
  have t: "t < P" using bound P by simp
  have up: "t + 1 < P" if "r \<ge> 13" using bound P that by simp
  define s' where "s' = (if r < 13 \<or> (r = 13 \<and> even (k * P + t)) then k * P + t else k * P + t + 1)"
  have "\<exists>u < P. s' = k * P + u"
  proof (cases "r < 13 \<or> (r = 13 \<and> even (k * P + t))")
    case True
    with t show ?thesis unfolding s'_def by auto
  next
    case False
    then have "r \<ge> 13" by auto
    from up [OF this] False show ?thesis unfolding s'_def by (intro exI [of _ "t + 1"]) simp
  qed
  then obtain u where "u < P" "s' = k * P + u" by blast
  then have "s' div P = k" by simp
  moreover have "floor_div26 m = s' div P"
    using big l
    by (simp add: floor_div26_def Let_def k_def [symmetric] l_def [symmetric] P_def [symmetric] s s'_def)
  ultimately show ?thesis by (simp add: k_def)
qed

lemma to_double_small: "x \<le> 2 ^ 53 \<Longrightarrow> to_double x = x"
  by (simp add: to_double_def)

lemma to_double_tie: "to_double 9007199254740993 = 9007199254740992"
  by (simp add: to_double_def bit_length.simps Let_def)


termination toColLabel_loop
proof (relation "measure fst")
  show "wf (measure fst)" by simp
next
  fix n :: nat and s :: jsstring
  assume "0 < n"
  then have "floor_div26 (to_double (n - 1)) < n" by (rule loop_decreases)
  then show "((floor_div26 (to_double (n - 1)), (65 + to_double (n - 1) mod 26) # s), (n, s)) \<in> measure fst"
    by simp
qed

declare toColLabel_loop.simps [simp del]

lemma toColLabel_loop_0: "toColLabel_loop 0 s = s"
  by (simp add: toColLabel_loop.simps)

lemma toColLabel_loop_append: "toColLabel_loop n s = toColLabel_loop n [] @ s"
proof (induction n arbitrary: s rule: less_induct)
  case (less n)
  show ?case
  proof (cases "n > 0")
    case False
    then show ?thesis by (simp add: toColLabel_loop_0)
  next
    case True
    let ?m = "floor_div26 (to_double (n - 1))" and ?c = "65 + to_double (n - 1) mod 26"
    from True have m: "?m < n" by (rule loop_decreases)
    from True have "toColLabel_loop n s = toColLabel_loop ?m (?c # s)"
      by (subst toColLabel_loop.simps) simp
    also have "\<dots> = toColLabel_loop ?m [] @ (?c # s)"
      using m by (rule less.IH)
    also have "\<dots> = (toColLabel_loop ?m [] @ [?c]) @ s"
      by simp
    also have "toColLabel_loop ?m [] @ [?c] = toColLabel_loop ?m [?c]"
      using less.IH [OF m, of "[?c]"] by simp
    also from True have "toColLabel_loop ?m [?c] = toColLabel_loop n []"
      by (subst (2) toColLabel_loop.simps) simp
    finally show ?thesis .
  qed
qed

lemma toColLabel_loop_step:
  "n > 0 \<Longrightarrow>
     toColLabel_loop n [] =
       toColLabel_loop (floor_div26 (to_double (n - 1))) [] @ [65 + to_double (n - 1) mod 26]"
  by (subst toColLabel_loop.simps, subst toColLabel_loop_append) simp

lemma toColLabel_loop_exact_step:
  assumes "n > 0" and "n \<le> 2 ^ 53"
  shows "toColLabel_loop n [] = toColLabel_loop ((n - 1) div 26) [] @ [65 + (n - 1) mod 26]"
proof -
  from assms have "n - 1 < 2 ^ 53" by simp
  then have "to_double (n - 1) = n - 1" "floor_div26 (n - 1) = (n - 1) div 26"
    by (simp_all add: to_double_small floor_div26_exact)
  with assms(1) show ?thesis by (simp add: toColLabel_loop_step)
qed

lemma col_number_snoc: "col_number (s @ [c]) = col_number s * 26 + (c - 64)"
  by (simp add: col_number_def)

lemma col_number_loop: "n \<le> 2 ^ 53 \<Longrightarrow> col_number (toColLabel_loop n []) = n"
proof (induction n rule: less_induct)
  case (less n)
  show ?case
  proof (cases "n > 0")
    case False
    then show ?thesis by (simp add: toColLabel_loop_0 col_number_def)
  next
    case True
    let ?m = "(n - 1) div 26"
    from True have m: "?m < n"
      by (metis One_nat_def Suc_pred div_le_dividend le_imp_less_Suc)
    with less.prems have m53: "?m \<le> 2 ^ 53" by simp
    have "col_number (toColLabel_loop n []) = col_number (toColLabel_loop ?m []) * 26 + ((n - 1) mod 26 + 1)"
      using True less.prems by (simp add: toColLabel_loop_exact_step col_number_snoc)
    also have "\<dots> = ?m * 26 + ((n - 1) mod 26 + 1)"
      using less.IH [OF m m53] by simp
    also have "\<dots> = n"
      using True by simp
    finally show ?thesis .
  qed
qed

lemma letters_loop: "set (toColLabel_loop n []) \<subseteq> {65..90}"
proof (induction n rule: less_induct)
  case (less n)
  show ?case
  proof (cases "n > 0")
    case False
    then show ?thesis by (simp add: toColLabel_loop_0)
  next
    case True
    let ?m = "floor_div26 (to_double (n - 1))"
    from True have m: "?m < n" by (rule loop_decreases)
    have "to_double (n - 1) mod 26 < 26" by simp
    then have "65 + to_double (n - 1) mod 26 \<in> {65..90}" by auto
    with less.IH [OF m] True show ?thesis
      by (simp add: toColLabel_loop_step)
  qed
qed

lemma col_number_toColLabel: "n < 2 ^ 53 \<Longrightarrow> col_number (toColLabel n) = n + 1"
  by (simp add: toColLabel_def col_number_loop to_double_small)

lemma inj_on_toColLabel: "inj_on toColLabel {..<2 ^ 53}"
proof (rule inj_onI)
  fix m n :: nat
  assume "m \<in> {..<2 ^ 53}" and "n \<in> {..<2 ^ 53}" and eq: "toColLabel m = toColLabel n"
  then have m: "m < 2 ^ 53" and n: "n < 2 ^ 53"
    by (simp_all only: lessThan_iff)
  have "m + 1 = col_number (toColLabel m)"
    using m by (rule col_number_toColLabel [symmetric])
  also have "\<dots> = col_number (toColLabel n)"
    by (simp only: eq)
  also have "\<dots> = n + 1"
    using n by (rule col_number_toColLabel)
  finally show "m = n" by simp
qed

lemma toColLabel_small:
  "n0 < 2 ^ 53 \<Longrightarrow> toColLabel n0 = toColLabel_loop (n0 div 26) [] @ [65 + n0 mod 26]"
  by (simp add: toColLabel_def to_double_small toColLabel_loop_exact_step)

lemma toColLabel_examples:
  "toColLabel 0 = str ''A''" "toColLabel 25 = str ''Z''" "toColLabel 26 = str ''AA''"
  by (simp_all add: toColLabel_small toColLabel_loop_exact_step toColLabel_loop_0 str_def)

lemma distinct_labels: "n \<le> 2 ^ 53 \<Longrightarrow> distinct (map toColLabel [0..<n])"
  by (auto simp: distinct_map intro: inj_on_subset [OF inj_on_toColLabel])

lemma descRows_map:
  "descRows descs i = map (\<lambda>j. Li_row (toColLabel j) (descs ! j)) [i..<length descs]"
proof (induction descs i rule: descRows.induct)
  case (1 descs i)
  show ?case
  proof (cases "i < length descs")
    case True
    with "1.IH" show ?thesis
      by (subst descRows.simps) (simp add: upt_conv_Cons)
  next
    case False
    then show ?thesis
      by (subst descRows.simps) simp
  qed
qed

section \<open>Sibling descriptors and start-up\<close>

lemma fetchJson_fails: "fetch_fails path r e \<Longrightarrow> fetchJson path r p = (Inl e, p\<lparr>requests := requests p @ [path]\<rparr>)"
  by (auto simp: fetch_fails_def fetchJson_def Let_def split: response.splits if_splits)

lemma fetchJson_yields: "fetch_yields r v \<Longrightarrow> fetchJson path r p = (Inr v, p\<lparr>requests := requests p @ [path]\<rparr>)"
  by (auto simp: fetch_yields_def fetchJson_def Let_def split: response.splits)

lemma fst_try_load_indep: "fst (try_load dir net s p) = fst (try_load dir net s q)"
  by (simp add: fst_try_load fst_fetchJson)

lemma fst_load_uncached:
  "fst (load_uncached dir net s p) =
     descriptor_out (case fst (try_load dir net s p) of Inl e \<Rightarrow> [] | Inr d \<Rightarrow> d)"
  by (simp add: load_uncached_def split_def Let_def)

lemma fst_load_uncached_indep: "fst (load_uncached dir net s p) = fst (load_uncached dir net s q)"
  unfolding fst_load_uncached fst_try_load_indep [of dir net s p q] ..

lemma promise_all_results:
  "fst (promise_all_load dir net snap sps p) =
     map (\<lambda>s. case snap s of Some v \<Rightarrow> v | None \<Rightarrow> fst (load_uncached dir net s q)) sps"
proof (induction sps arbitrary: p)
  case Nil
  show ?case by simp
next
  case (Cons s sps)
  show ?case
  proof (cases "snap s")
    case None
    with Cons.IH [of "snd (load_uncached dir net s p)"] show ?thesis
      by (simp add: split_def fst_load_uncached_indep [of dir net s p q])
  next
    case (Some v)
    with Cons.IH [of p] show ?thesis by (simp add: split_def)
  qed
qed

lemma fst_load:
  "fst (loadDescriptorsForSpecies dir net s p) =
     (case cacheDescriptors p s of Some v \<Rightarrow> v | None \<Rightarrow> fst (load_uncached dir net s p))"
  by (simp add: loadDescriptorsForSpecies_def split: option.splits)

lemma sibling_results:
  assumes "\<forall>s \<in> set others. Str s \<noteq> sp"
  shows "fst (promise_all_load dir net
               (cacheDescriptors (snd (loadDescriptorsForSpecies dir net sp p)))
               (map Str others) (snd (loadDescriptorsForSpecies dir net sp p)))
         = map (\<lambda>s. fst (loadDescriptorsForSpecies dir net (Str s) p)) others"
proof -
  have "cacheDescriptors (snd (loadDescriptorsForSpecies dir net sp p)) (Str s) = cacheDescriptors p (Str s)"
    if "s \<in> set others" for s
    using that assms by (auto simp: load_cache split: option.splits)
  then show ?thesis
    unfolding promise_all_results [of dir net _ _ _ p]
    by (simp add: fst_load comp_def)
qed

lemma class_only_set:
  "set (class_only own siblings) = (\<Union>ds \<in> set siblings. set ds) - set own"
  "distinct (class_only own siblings)"
  by (auto simp: class_only_def set_keep_first distinct_keep_first)

lemma main_flat_first_fails:
  assumes "fetch_fails index_path (images_index_json net) e"
  shows "main_flat net p = (Some e, p\<lparr>requests := requests p @ [index_path]\<rparr>)"
  using fetchJson_fails [OF assms, of p] by (simp add: main_flat_def index_path_def)

lemma main_paged_first_fails:
  assumes "fetch_fails index_path (images_index_json net) e"
  shows "main_paged net p = (Some e, p\<lparr>requests := requests p @ [index_path]\<rparr>)"
  using fetchJson_fails [OF assms, of p] by (simp add: main_paged_def index_path_def)

lemma main_flat_second_fails:
  assumes "fetch_yields (images_index_json net) its"
    and "fetch_fails classes_path (class_to_species_json net) e"
  shows "main_flat net p = (Some e, p\<lparr>requests := requests p @ [index_path, classes_path], items := its\<rparr>)"
  using fetchJson_yields [OF assms(1), of index_path p]
    fetchJson_fails [OF assms(2), of "p\<lparr>requests := requests p @ [index_path], items := its\<rparr>"]
  by (simp add: main_flat_def index_path_def classes_path_def)

lemma main_paged_second_fails:
  assumes "fetch_yields (images_index_json net) its"
    and "fetch_fails classes_path (class_to_species_json net) e"
  shows "main_paged net p = (Some e, p\<lparr>requests := requests p @ [index_path, classes_path], items := its\<rparr>)"
  using fetchJson_yields [OF assms(1), of index_path p]
    fetchJson_fails [OF assms(2), of "p\<lparr>requests := requests p @ [index_path], items := its\<rparr>"]
  by (simp add: main_paged_def index_path_def classes_path_def)

lemma main_flat_loaded:
  assumes "fetch_yields (images_index_json net) its"
    and "fetch_yields (class_to_species_json net) m"
  shows "main_flat net p =
           (None, render_flat net
                    (p\<lparr>requests := requests p @ [index_path, classes_path],
                       classToSpecies := m, items := filter valid_entry its\<rparr>))"
  using fetchJson_yields [OF assms(1), of index_path p]
    fetchJson_yields [OF assms(2), of classes_path "p\<lparr>requests := requests p @ [index_path], items := its\<rparr>"]
  by (simp add: main_flat_def index_path_def classes_path_def Let_def)

lemma main_paged_loaded:
  assumes "fetch_yields (images_index_json net) its"
    and "fetch_yields (class_to_species_json net) m"
  shows "main_paged net p =
           render_paged net
             (p\<lparr>requests := requests p @ [index_path, classes_path],
                classToSpecies := m, items := filter valid_entry its\<rparr>)"
  using fetchJson_yields [OF assms(1), of index_path p]
    fetchJson_yields [OF assms(2), of classes_path "p\<lparr>requests := requests p @ [index_path], items := its\<rparr>"]
  by (simp add: main_paged_def index_path_def classes_path_def Let_def)

lemma console_error_load:
  "console_error (snd (loadDescriptorsForSpecies dir net sp p)) = console_error p"
  by (simp add: loadDescriptorsForSpecies_def load_uncached_def split_def Let_def snd_try_load
      split: option.splits sum.splits)

lemma console_error_render_flat: "console_error (render_flat net p) = console_error p"
  by (simp add: render_flat_def Let_def renderDescriptors_flat_def split_def console_error_load
      renderNumButtons_flat_def setImage_def setMetaText_flat_def setBigTitle_def clampIdx_def
      split: option.splits)

lemma valid_entry_iff:
  "valid_entry x = (\<exists>a b. image_path x = Str a \<and> a \<noteq> [] \<and> species x = Str b \<and> b \<noteq> [])"
  by (cases "image_path x"; cases "species x") (simp_all add: valid_entry_def)

section \<open>The claims\<close>

text \<open>
  Claim C1.  Let the pager start in a valid position: the index is 0 when there are no
  images and lies in \<open>[0, N)\<close> otherwise.  After every sequence of events (next, previous,
  jump by a numbered button or a digit key, page advance, shuffle), in either source file,
  the position is valid again and the number of images is unchanged.  A render alone
  makes any position valid, and with no images it sets the index to 0 and changes
  nothing else.
\<close>

theorem pager_index_in_range:
  assumes "idx_ok p"
  shows "(let q = foldl (\<lambda>q e. handle_flat net e q) p es
          in length (items q) = length (items p) \<and>
             (if items p = [] then idx q = 0 else 0 \<le> idx q \<and> idx q < int (length (items p)))) \<and>
         (let q = foldl (\<lambda>q e. handle_paged net e q) p es
          in length (items q) = length (items p) \<and>
             (if items p = [] then idx q = 0 else 0 \<le> idx q \<and> idx q < int (length (items p)))) \<and>
         idx_ok (render_flat net r) \<and> idx_ok (snd (render_paged net r)) \<and>
         (items r = [] \<longrightarrow>
            render_flat net r = r\<lparr>idx := 0\<rparr> \<and> render_paged net r = (None, r\<lparr>idx := 0\<rparr>))"
proof -
  note f = run_flat [OF assms, of net es] and g = run_paged [OF assms, of net es]
  have "if items p = [] then idx (foldl (\<lambda>q e. handle_flat net e q) p es) = 0
        else 0 \<le> idx (foldl (\<lambda>q e. handle_flat net e q) p es) \<and>
             idx (foldl (\<lambda>q e. handle_flat net e q) p es) < int (length (items p))"
    using f by (intro idx_ok_range) simp_all
  moreover have "if items p = [] then idx (foldl (\<lambda>q e. handle_paged net e q) p es) = 0
        else 0 \<le> idx (foldl (\<lambda>q e. handle_paged net e q) p es) \<and>
             idx (foldl (\<lambda>q e. handle_paged net e q) p es) < int (length (items p))"
    using g by (intro idx_ok_range) simp_all
  ultimately show ?thesis
    using f g
    by (simp add: Let_def idx_ok_render_flat idx_ok_render_paged render_flat_empty
        render_paged_empty)
qed

theorem pager_index_in_range_witness:
  "idx_ok three_items \<and>
   0 \<le> idx (foldl (\<lambda>q e. handle_flat offline e q) three_items [ClickNext, ClickNext, ClickPrev]) \<and>
   idx (foldl (\<lambda>q e. handle_flat offline e q) three_items [ClickNext, ClickNext, ClickPrev]) < 3 \<and>
   0 \<le> idx (foldl (\<lambda>q e. handle_paged offline e q) three_items [ClickNext, KeyDown (str ''7''), ClickNum 0]) \<and>
   idx (foldl (\<lambda>q e. handle_paged offline e q) three_items [ClickNext, KeyDown (str ''7''), ClickNum 0]) < 3 \<and>
   items blank_page = [] \<and>
   render_flat offline blank_page = blank_page\<lparr>idx := 0\<rparr> \<and>
   render_paged offline blank_page = (None, blank_page\<lparr>idx := 0\<rparr>)"
proof -
  have ok: "idx_ok three_items"
    by (simp add: idx_ok_def three_items_def blank_page_def)
  have empty: "items blank_page = []"
    by (simp add: blank_page_def)
  have n: "items three_items \<noteq> []" "int (length (items three_items)) = 3"
    by (simp_all add: three_items_def blank_page_def)
  from pager_index_in_range [OF ok, of offline "[ClickNext, ClickNext, ClickPrev]" blank_page]
    pager_index_in_range [OF ok, of offline "[ClickNext, KeyDown (str ''7''), ClickNum 0]" blank_page]
    ok empty
  show ?thesis
    unfolding Let_def n by (simp only: n if_False simp_thms)
qed

text \<open>
  Claim C2.  From a valid index of a non-empty image list, next followed by previous and
  previous followed by next both return to the index they started from, in either source
  file; next is addition of 1 modulo \<open>N\<close> and previous is subtraction of 1 modulo
  \<open>N\<close>; the arrow keys do what the buttons do.
\<close>

theorem next_previous_inverse:
  assumes "0 \<le> idx p" and "idx p < int (length (items p))"
  shows "idx (handle_flat net' ClickPrev (handle_flat net ClickNext p)) = idx p \<and>
         idx (handle_flat net' ClickNext (handle_flat net ClickPrev p)) = idx p \<and>
         idx (handle_paged net' ClickPrev (handle_paged net ClickNext p)) = idx p \<and>
         idx (handle_paged net' ClickNext (handle_paged net ClickPrev p)) = idx p \<and>
         idx (handle_flat net ClickNext p) = (idx p + 1) mod int (length (items p)) \<and>
         idx (handle_flat net ClickPrev p) = (idx p - 1) mod int (length (items p)) \<and>
         idx (handle_paged net ClickNext p) = (idx p + 1) mod int (length (items p)) \<and>
         idx (handle_paged net ClickPrev p) = (idx p - 1) mod int (length (items p)) \<and>
         handle_flat net (KeyDown (str ''ArrowRight'')) p = handle_flat net ClickNext p \<and>
         handle_flat net (KeyDown (str ''ArrowLeft'')) p = handle_flat net ClickPrev p \<and>
         handle_paged net (KeyDown (str ''ArrowRight'')) p = handle_paged net ClickNext p \<and>
         handle_paged net (KeyDown (str ''ArrowLeft'')) p = handle_paged net ClickPrev p"
proof -
  have keys: "str ''ArrowRight'' \<noteq> str ''ArrowLeft''"
    by (simp add: str_def)
  have flat: "items (handle_flat net ClickNext p) = items p" "items (handle_flat net ClickPrev p) = items p"
    by (simp_all add: nav_render_flat)
  have paged: "items (handle_paged net ClickNext p) = items p" "items (handle_paged net ClickPrev p) = items p"
    by (simp_all add: nav_render_paged nav_detached)
  let ?n = "int (length (items p))"
  have inv: "idx (handle_flat net' ClickPrev (handle_flat net ClickNext p)) = idx p"
    "idx (handle_flat net' ClickNext (handle_flat net ClickPrev p)) = idx p"
    "idx (handle_paged net' ClickPrev (handle_paged net ClickNext p)) = idx p"
    "idx (handle_paged net' ClickNext (handle_paged net ClickPrev p)) = idx p"
    unfolding idx_next_flat idx_prev_flat idx_next_paged idx_prev_paged flat paged
    using assms by (simp_all add: wrap_next_prev)
  have md: "idx (handle_flat net ClickNext p) = (idx p + 1) mod ?n"
    "idx (handle_flat net ClickPrev p) = (idx p - 1) mod ?n"
    "idx (handle_paged net ClickNext p) = (idx p + 1) mod ?n"
    "idx (handle_paged net ClickPrev p) = (idx p - 1) mod ?n"
    unfolding idx_next_flat idx_prev_flat idx_next_paged idx_prev_paged
    using assms by (simp_all add: wrap_mod)
  have ks: "handle_flat net (KeyDown (str ''ArrowRight'')) p = handle_flat net ClickNext p"
    "handle_flat net (KeyDown (str ''ArrowLeft'')) p = handle_flat net ClickPrev p"
    "handle_paged net (KeyDown (str ''ArrowRight'')) p = handle_paged net ClickNext p"
    "handle_paged net (KeyDown (str ''ArrowLeft'')) p = handle_paged net ClickPrev p"
    using keys by (simp_all add: keydown_paged_def)
  from inv md ks show ?thesis by blast
qed

theorem next_previous_inverse_witness:
  "0 \<le> idx three_items \<and> idx three_items < int (length (items three_items)) \<and>
   idx (handle_flat offline ClickPrev (handle_flat offline ClickNext three_items)) = 1 \<and>
   idx (handle_paged offline ClickNext (handle_paged offline ClickPrev three_items)) = 1 \<and>
   idx (handle_paged offline ClickNext three_items) = 2 \<and>
   idx (handle_flat offline ClickPrev three_items) = 0"
proof -
  have i: "idx three_items = 1" and n: "int (length (items three_items)) = 3"
    by (simp_all add: three_items_def blank_page_def)
  have h: "0 \<le> idx three_items" "idx three_items < int (length (items three_items))"
    by (simp_all add: i n)
  have a: "((1::int) + 1) mod 3 = 2" "((1::int) - 1) mod 3 = 0"
    by simp_all
  from next_previous_inverse [OF h, of offline offline] h show ?thesis
    by (simp only: i n a)
qed

text \<open>
  Claim C3, as amended.  A click on a numbered button with target \<open>t\<close> sets the index
  to \<open>t\<close> and applies the clamp and wrap rule (0 when there are no images, \<open>N - 1\<close>
  for a target below 0, 0 for a target at or above \<open>N\<close>).  A digit key \<open>d\<close> from 1
  to 9 of the nine-per-page file has the target \<open>btnPage * 9 + d - 1\<close>; it jumps under
  the same rule when the target is below \<open>N\<close> and leaves the page untouched otherwise.
  The flat-strip file ignores digit keys.
\<close>

theorem direct_jump_rule:
  "(k < length (numstrip p) \<and> onclick (numstrip p ! k) = JumpTo t \<longrightarrow>
      idx (handle_flat net (ClickNum k) p) = wrap (int (length (items p))) t \<and>
      idx (handle_paged net (ClickNum k) p) = wrap (int (length (items p))) t) \<and>
   (1 \<le> d \<and> d \<le> 9 \<longrightarrow>
      (btnPage p * 9 + (int d - 1) < int (length (items p)) \<longrightarrow>
         idx (handle_paged net (KeyDown (dec d)) p)
           = wrap (int (length (items p))) (btnPage p * 9 + (int d - 1))) \<and>
      (btnPage p * 9 + (int d - 1) \<ge> int (length (items p)) \<longrightarrow>
         handle_paged net (KeyDown (dec d)) p = p) \<and>
      handle_flat net (KeyDown (dec d)) p = p)"
proof -
  have click: "idx (handle_flat net (ClickNum k) p) = wrap (int (length (items p))) t"
    "idx (handle_paged net (ClickNum k) p) = wrap (int (length (items p))) t"
    if "k < length (numstrip p)" "onclick (numstrip p ! k) = JumpTo t"
    using that by (simp_all add: nav_render_flat nav_render_paged nav_detached)
  have key: "idx (handle_paged net (KeyDown (dec d)) p)
               = wrap (int (length (items p))) (btnPage p * 9 + (int d - 1))"
    if "1 \<le> d" "d \<le> 9" "btnPage p * 9 + (int d - 1) < int (length (items p))"
    using that digit_key [of d]
    by (simp add: keydown_paged_def Let_def nav_render_paged nav_detached)
  have ignored: "handle_paged net (KeyDown (dec d)) p = p"
    if "1 \<le> d" "d \<le> 9" "btnPage p * 9 + (int d - 1) \<ge> int (length (items p))"
    using that digit_key [of d]
    by (simp add: keydown_paged_def Let_def)
  have flat: "handle_flat net (KeyDown (dec d)) p = p" if "1 \<le> d" "d \<le> 9"
    using that digit_key [of d] by simp
  from click key ignored flat show ?thesis by blast
qed

text \<open>
  The claim as first stated fails for a digit key whose target lies beyond the last image:
  the key is ignored and the index does not become 0.
\<close>

theorem digit_key_beyond_end_counterexample:
  "btnPage three_items * 9 + (5 - 1) \<ge> int (length (items three_items)) \<and>
   idx (handle_paged offline (KeyDown (str ''5'')) three_items)
     \<noteq> wrap (int (length (items three_items))) (btnPage three_items * 9 + (5 - 1))"
  by (simp add: three_items_def blank_page_def keydown_paged_def parseInt10_def str_def wrap_def
      Let_def)

theorem direct_jump_rule_witness:
  "(0 < length (numstrip stale_strip) \<and> onclick (numstrip stale_strip ! 0) = JumpTo 7) \<and>
   idx (handle_paged offline (ClickNum 0) stale_strip) = 0 \<and>
   idx (handle_flat offline (ClickNum 0) stale_strip) = 0 \<and>
   ((1::nat) \<le> 3 \<and> (3::nat) \<le> 9) \<and>
   idx (handle_paged offline (KeyDown (str ''3'')) three_items) = 2 \<and>
   handle_paged offline (KeyDown (str ''4'')) three_items = three_items"
proof -
  have btn: "0 < length (numstrip stale_strip) \<and> onclick (numstrip stale_strip ! 0) = JumpTo 7"
    by (simp add: stale_strip_def)
  have d3: "(1::nat) \<le> 3 \<and> (3::nat) \<le> 9" and d4: "(1::nat) \<le> 4 \<and> (4::nat) \<le> 9"
    by simp_all
  have n: "int (length (items stale_strip)) = 3" "int (length (items three_items)) = 3"
    "btnPage three_items = 0"
    by (simp_all add: stale_strip_def three_items_def blank_page_def)
  have keys: "dec 3 = str ''3''" "dec 4 = str ''4''"
    by (simp_all add: dec.simps str_def)
  have w: "wrap 3 7 = 0" "wrap 3 (0 * 9 + (int 3 - 1)) = 2"
    by (simp_all add: wrap_def)
  have in3: "btnPage three_items * 9 + (int 3 - 1) < int (length (items three_items))"
    and out4: "btnPage three_items * 9 + (int 4 - 1) \<ge> int (length (items three_items))"
    by (simp_all add: n)
  from direct_jump_rule [of 0 stale_strip 7 offline 3] btn
  have "idx (handle_flat offline (ClickNum 0) stale_strip) = wrap (int (length (items stale_strip))) 7"
    and "idx (handle_paged offline (ClickNum 0) stale_strip) = wrap (int (length (items stale_strip))) 7"
    by blast+
  moreover from direct_jump_rule [of 0 three_items 0 offline 3] d3 in3
  have "idx (handle_paged offline (KeyDown (dec 3)) three_items)
          = wrap (int (length (items three_items))) (btnPage three_items * 9 + (int 3 - 1))"
    by blast
  moreover from direct_jump_rule [of 0 three_items 0 offline 4] d4 out4
  have "handle_paged offline (KeyDown (dec 4)) three_items = three_items"
    by blast
  ultimately show ?thesis
    using btn d3 by (simp only: n keys w)
qed



text \<open>
  Claim C5.  Post-processing trims every string (what is removed on either side is white
  space, and a non-empty result neither begins nor ends with white space), drops the
  strings that become empty, and keeps of every string its first occurrence, in the
  original order; the result has no duplicates.  The list b, a, b, c, a yields b, a, c,
  and the payload with attributes spotted, spotted, " striped " yields spotted, striped.
\<close>

theorem descriptor_out_trims_and_dedups:
  "descriptor_out data = keep_first (filter (\<lambda>s. s \<noteq> []) (map js_trim data)) \<and>
   distinct (descriptor_out data) \<and>
   set (descriptor_out data) = js_trim ` set data - {[]} \<and>
   (\<exists>pre post. s = pre @ js_trim s @ post \<and> list_all is_js_space pre \<and> list_all is_js_space post) \<and>
   (js_trim s \<noteq> [] \<longrightarrow> \<not> is_js_space (hd (js_trim s)) \<and> \<not> is_js_space (last (js_trim s))) \<and>
   descriptor_out [str ''b'', str ''a'', str ''b'', str ''c'', str ''a'']
     = [str ''b'', str ''a'', str ''c''] \<and>
   (case normalizeDescriptorList
           (JObj [(str ''attributes'',
                   JArr [JStr (str ''spotted''), JStr (str ''spotted''), JStr (str '' striped '')])]) of
      Inl e \<Rightarrow> None
    | Inr d \<Rightarrow> Some (descriptor_out d)) = Some [str ''spotted'', str ''striped'']"
proof -
  have order: "descriptor_out data = keep_first (filter (\<lambda>s. s \<noteq> []) (map js_trim data))"
    by (simp add: descriptor_out_def uniq_keep_first)
  have dist: "distinct (descriptor_out data)"
    unfolding order by (rule distinct_keep_first)
  have members: "set (descriptor_out data) = js_trim ` set data - {[]}"
    unfolding order set_keep_first by auto
  have "list_all is_js_space (takeWhile is_js_space s)"
    "list_all is_js_space (rev (takeWhile is_js_space (rev (dropWhile is_js_space s))))"
    by (auto simp: list_all_iff dest: set_takeWhileD)
  with js_trim_split [of s]
  have parts: "\<exists>pre post. s = pre @ js_trim s @ post \<and> list_all is_js_space pre \<and> list_all is_js_space post"
    by blast
  have ends: "js_trim s \<noteq> [] \<longrightarrow> \<not> is_js_space (hd (js_trim s)) \<and> \<not> is_js_space (last (js_trim s))"
    using js_trim_ends [of s] by blast
  have ex1: "descriptor_out [str ''b'', str ''a'', str ''b'', str ''c'', str ''a'']
     = [str ''b'', str ''a'', str ''c'']"
    by (simp add: descriptor_out_def uniq_def js_trim_def is_js_space_def str_def)
  have ex2: "(case normalizeDescriptorList
           (JObj [(str ''attributes'',
                   JArr [JStr (str ''spotted''), JStr (str ''spotted''), JStr (str '' striped '')])]) of
      Inl e \<Rightarrow> None
    | Inr d \<Rightarrow> Some (descriptor_out d)) = Some [str ''spotted'', str ''striped'']"
    by (simp add: normalizeDescriptorList_def descriptor_keys_def descriptor_out_def uniq_def
        js_trim_def is_js_space_def str_def)
  from order dist members parts ends ex1 ex2 show ?thesis by blast
qed

theorem descriptor_out_trims_and_dedups_witness:
  "descriptor_out [str '' striped '', str '''', str ''striped'', str ''  '']
     = keep_first [str ''striped'', str ''striped''] \<and>
   js_trim (str '' striped '') \<noteq> [] \<and>
   \<not> is_js_space (hd (js_trim (str '' striped ''))) \<and>
   \<not> is_js_space (last (js_trim (str '' striped '')))"
proof -
  have t: "js_trim (str '' striped '') = str ''striped''"
    by (simp add: js_trim_def is_js_space_def str_def)
  have f: "filter (\<lambda>s. s \<noteq> []) (map js_trim [str '' striped '', str '''', str ''striped'', str ''  ''])
             = [str ''striped'', str ''striped'']"
    by (simp add: js_trim_def is_js_space_def str_def)
  have ne: "js_trim (str '' striped '') \<noteq> []"
    by (simp add: js_trim_def is_js_space_def str_def)
  from descriptor_out_trims_and_dedups
         [of "[str '' striped '', str '''', str ''striped'', str ''  '']" "str '' striped ''"] ne
  show ?thesis
    unfolding f by blast
qed

text \<open>
  Claim C6.  When a species is not cached and fetching or parsing its descriptor file
  fails (no response, a status that is not a success such as 404, a body that is not
  JSON, or a payload whose conversion throws), \<open>loadDescriptorsForSpecies\<close> returns the
  empty list: the request is made, one warning with the error is logged, the empty list
  is cached, and nothing else of the page changes; no error reaches the caller.
\<close>

theorem descriptor_failure_gives_empty_list:
  assumes "cacheDescriptors p sp = None"
    and "fetch_fails (descriptor_path dir sp) (net (descriptor_path dir sp)) e
      \<or> (\<exists>obj. fetch_yields (net (descriptor_path dir sp)) obj \<and> normalizeDescriptorList obj = Inl e)"
  shows "loadDescriptorsForSpecies dir net sp p =
     ([], p\<lparr>requests := requests p @ [descriptor_path dir sp],
             console_warn := console_warn p @
               [(str ''Descriptor load failed for '' @ to_text sp @ str '':'', e)],
             cacheDescriptors := (cacheDescriptors p)(sp \<mapsto> [])\<rparr>)"
proof -
  have "fst (try_load dir net sp p) = Inl e"
    using assms(2) by (rule try_load_fails)
  then show ?thesis
    using assms(1) by (simp add: loadDescriptorsForSpecies_def load_uncached_failure)
qed

theorem descriptor_failure_gives_empty_list_witness:
  "cacheDescriptors blank_page (Str (str ''rosa_canina'')) = None \<and>
   fetch_fails (str ''descriptors/rosa_canina.json'')
     (descriptor_json not_found (str ''descriptors/rosa_canina.json''))
     (Error (str ''Failed to fetch descriptors/rosa_canina.json: 404'')) \<and>
   loadDescriptorsForSpecies DESCRIPTOR_DIR_paged (descriptor_json not_found)
       (Str (str ''rosa_canina'')) blank_page
     = ([], blank_page
           \<lparr>requests := [str ''descriptors/rosa_canina.json''],
             console_warn := [(str ''Descriptor load failed for rosa_canina:'',
                               Error (str ''Failed to fetch descriptors/rosa_canina.json: 404''))],
             cacheDescriptors := [Str (str ''rosa_canina'') \<mapsto> []]\<rparr>)"
proof -
  have path: "descriptor_path DESCRIPTOR_DIR_paged (Str (str ''rosa_canina'')) = str ''descriptors/rosa_canina.json''"
    by (simp add: descriptor_path_def DESCRIPTOR_DIR_paged_def str_def)
  have c: "cacheDescriptors blank_page (Str (str ''rosa_canina'')) = None"
    by (simp add: blank_page_def)
  have f: "fetch_fails (str ''descriptors/rosa_canina.json'')
     (descriptor_json not_found (str ''descriptors/rosa_canina.json''))
     (Error (str ''Failed to fetch descriptors/rosa_canina.json: 404''))"
    by (simp add: fetch_fails_def not_found_def dec.simps str_def)
  have "loadDescriptorsForSpecies DESCRIPTOR_DIR_paged (descriptor_json not_found)
       (Str (str ''rosa_canina'')) blank_page
     = ([], blank_page
           \<lparr>requests := requests blank_page @ [descriptor_path DESCRIPTOR_DIR_paged (Str (str ''rosa_canina''))],
             console_warn := console_warn blank_page @
               [(str ''Descriptor load failed for '' @ to_text (Str (str ''rosa_canina'')) @ str '':'',
                 Error (str ''Failed to fetch descriptors/rosa_canina.json: 404''))],
             cacheDescriptors := (cacheDescriptors blank_page)(Str (str ''rosa_canina'') \<mapsto> [])\<rparr>)"
    by (rule descriptor_failure_gives_empty_list [OF c]) (simp add: path f)
  then show ?thesis
    using c f unfolding path by (simp add: blank_page_def str_def)
qed



text \<open>
  Claim C8, as amended.  In the file with sibling descriptors, when the class name of the
  current entry is not empty and is a key of the class map, rendering the descriptors
  throws nothing, shows the species' own list, and shows as class list the deduplicated
  union (first occurrences, in order) of the lists of the other species of the class,
  the current species left out, without the descriptors of the own list.  An entry whose
  class name is the empty string is treated as an entry without a class: its class list
  is empty.
\<close>

theorem class_only_descriptors:
  "(class_name item = Str cls \<and> cls \<noteq> [] \<and> classToSpecies p cls = Some sl \<longrightarrow>
      fst (renderDescriptors_paged net item p) = None \<and>
      speciesList (snd (renderDescriptors_paged net item p))
        = renderList (fst (loadDescriptorsForSpecies DESCRIPTOR_DIR_paged (descriptor_json net) (species item) p)) \<and>
      classList (snd (renderDescriptors_paged net item p))
        = renderList
            (class_only
               (fst (loadDescriptorsForSpecies DESCRIPTOR_DIR_paged (descriptor_json net) (species item) p))
               (map (\<lambda>s. fst (loadDescriptorsForSpecies DESCRIPTOR_DIR_paged (descriptor_json net) (Str s) p))
                    (filter (\<lambda>s. Str s \<noteq> species item) sl)))) \<and>
   (class_name item = Str [] \<longrightarrow>
      fst (renderDescriptors_paged net item p) = None \<and>
      speciesList (snd (renderDescriptors_paged net item p))
        = renderList (fst (loadDescriptorsForSpecies DESCRIPTOR_DIR_paged (descriptor_json net) (species item) p)) \<and>
      classList (snd (renderDescriptors_paged net item p)) = renderList []) \<and>
   set (class_only own siblings) = (\<Union>ds \<in> set siblings. set ds) - set own \<and>
   distinct (class_only own siblings)"
proof -
  let ?others = "filter (\<lambda>s. Str s \<noteq> species item) sl"
  have sib: "fst (promise_all_load DESCRIPTOR_DIR_paged (descriptor_json net)
               (cacheDescriptors (snd (loadDescriptorsForSpecies DESCRIPTOR_DIR_paged (descriptor_json net) (species item) p)))
               (map Str ?others) (snd (loadDescriptorsForSpecies DESCRIPTOR_DIR_paged (descriptor_json net) (species item) p)))
         = map (\<lambda>s. fst (loadDescriptorsForSpecies DESCRIPTOR_DIR_paged (descriptor_json net) (Str s) p)) ?others"
    by (rule sibling_results) simp
  have empty: "class_only own [] = []" for own
    by (simp add: class_only_def keep_first_Nil)
  have main: "fst (renderDescriptors_paged net item p) = None \<and>
         speciesList (snd (renderDescriptors_paged net item p))
           = renderList (fst (loadDescriptorsForSpecies DESCRIPTOR_DIR_paged (descriptor_json net) (species item) p)) \<and>
         classList (snd (renderDescriptors_paged net item p))
           = renderList
               (class_only
                  (fst (loadDescriptorsForSpecies DESCRIPTOR_DIR_paged (descriptor_json net) (species item) p))
                  (map (\<lambda>s. fst (loadDescriptorsForSpecies DESCRIPTOR_DIR_paged (descriptor_json net) (Str s) p))
                       ?others))"
    if "class_name item = Str cls" and "cls \<noteq> []" and "classToSpecies p cls = Some sl"
  proof -
    have others: "otherSpecies item p = Inr ?others"
      using that by (simp add: otherSpecies_def)
    show ?thesis
    proof (cases "?others = []")
      case True
      then show ?thesis
        by (simp add: renderDescriptors_paged_def others split_def Let_def empty)
    next
      case False
      then show ?thesis
        using sib
        by (simp add: renderDescriptors_paged_def others split_def Let_def class_only_def
            uniq_keep_first)
    qed
  qed
  have unnamed: "fst (renderDescriptors_paged net item p) = None \<and>
      speciesList (snd (renderDescriptors_paged net item p))
        = renderList (fst (loadDescriptorsForSpecies DESCRIPTOR_DIR_paged (descriptor_json net) (species item) p)) \<and>
      classList (snd (renderDescriptors_paged net item p)) = renderList []"
    if "class_name item = Str []"
    using that by (simp add: renderDescriptors_paged_def otherSpecies_def split_def Let_def)
  from main unnamed class_only_set [of own siblings] show ?thesis by blast
qed

text \<open>
  The claim as first stated fails for a class name that is the empty string and a key of
  the class map: the siblings would give the class list y, and the class list rendered is
  empty.
\<close>

theorem empty_class_name_counterexample:
  "class_name unnamed_class_item = Str [] \<and>
   classToSpecies unnamed_class_page [] = Some [str ''a'', str ''b'', str ''c''] \<and>
   species unnamed_class_item = Str (str ''b'') \<and>
   class_only
     (fst (loadDescriptorsForSpecies DESCRIPTOR_DIR_paged (descriptor_json class_net) (Str (str ''b'')) unnamed_class_page))
     [fst (loadDescriptorsForSpecies DESCRIPTOR_DIR_paged (descriptor_json class_net) (Str (str ''a'')) unnamed_class_page),
      fst (loadDescriptorsForSpecies DESCRIPTOR_DIR_paged (descriptor_json class_net) (Str (str ''c'')) unnamed_class_page)]
     = [str ''y''] \<and>
   classList (snd (renderDescriptors_paged class_net unnamed_class_item unnamed_class_page)) = renderList [] \<and>
   renderList [] \<noteq> renderList [str ''y'']"
proof -
  have paths: "descriptor_path DESCRIPTOR_DIR_paged (Str (str ''a'')) = str ''descriptors/a.json''"
    "descriptor_path DESCRIPTOR_DIR_paged (Str (str ''b'')) = str ''descriptors/b.json''"
    "descriptor_path DESCRIPTOR_DIR_paged (Str (str ''c'')) = str ''descriptors/c.json''"
    by (simp_all add: descriptor_path_def DESCRIPTOR_DIR_paged_def str_def)
  have load: "fst (loadDescriptorsForSpecies DESCRIPTOR_DIR_paged (descriptor_json class_net) (Str (str ''a'')) unnamed_class_page) = [str ''x'']"
    "fst (loadDescriptorsForSpecies DESCRIPTOR_DIR_paged (descriptor_json class_net) (Str (str ''b'')) unnamed_class_page) = [str ''x'']"
    "fst (loadDescriptorsForSpecies DESCRIPTOR_DIR_paged (descriptor_json class_net) (Str (str ''c'')) unnamed_class_page) = [str ''y'', str ''x'']"
    unfolding fst_load fst_load_uncached fst_try_load fst_fetchJson paths
    by (simp_all add: unnamed_class_page_def blank_page_def class_net_def normalizeDescriptorList_def
        descriptor_keys_def descriptor_out_def uniq_def js_trim_def is_js_space_def str_def)
  have only: "class_only [str ''x''] [[str ''x''], [str ''y'', str ''x'']] = [str ''y'']"
    by (simp add: class_only_def keep_first_Cons keep_first_Nil str_def)
  have rendered: "classList (snd (renderDescriptors_paged class_net unnamed_class_item unnamed_class_page)) = renderList []"
    by (simp add: renderDescriptors_paged_def otherSpecies_def unnamed_class_item_def split_def Let_def)
  have differ: "renderList [] \<noteq> renderList [str ''y'']"
    by (simp add: renderList_def)
  have hyps: "class_name unnamed_class_item = Str []"
    "classToSpecies unnamed_class_page [] = Some [str ''a'', str ''b'', str ''c'']"
    "species unnamed_class_item = Str (str ''b'')"
    by (simp_all add: unnamed_class_item_def unnamed_class_page_def)
  from hyps rendered differ show ?thesis
    unfolding load only by simp
qed

theorem class_only_descriptors_witness:
  "class_name class_item = Str (str ''0'') \<and> str ''0'' \<noteq> [] \<and>
   classToSpecies class_page (str ''0'') = Some [str ''a'', str ''b'', str ''c''] \<and>
   speciesList (snd (renderDescriptors_paged class_net class_item class_page)) = [Li_text (str ''x'')] \<and>
   classList (snd (renderDescriptors_paged class_net class_item class_page)) = [Li_text (str ''y'')] \<and>
   class_name unnamed_class_item = Str [] \<and>
   classList (snd (renderDescriptors_paged class_net unnamed_class_item unnamed_class_page)) = renderList []"
proof -
  have h: "class_name class_item = Str (str ''0'') \<and> str ''0'' \<noteq> [] \<and>
    classToSpecies class_page (str ''0'') = Some [str ''a'', str ''b'', str ''c'']"
    by (simp add: class_item_def class_page_def class_map_def str_def)
  have u: "class_name unnamed_class_item = Str []"
    by (simp add: unnamed_class_item_def)
  have paths: "descriptor_path DESCRIPTOR_DIR_paged (Str (str ''a'')) = str ''descriptors/a.json''"
    "descriptor_path DESCRIPTOR_DIR_paged (Str (str ''b'')) = str ''descriptors/b.json''"
    "descriptor_path DESCRIPTOR_DIR_paged (Str (str ''c'')) = str ''descriptors/c.json''"
    by (simp_all add: descriptor_path_def DESCRIPTOR_DIR_paged_def str_def)
  have load: "fst (loadDescriptorsForSpecies DESCRIPTOR_DIR_paged (descriptor_json class_net) (Str (str ''a'')) class_page) = [str ''x'']"
    "fst (loadDescriptorsForSpecies DESCRIPTOR_DIR_paged (descriptor_json class_net) (Str (str ''b'')) class_page) = [str ''x'']"
    "fst (loadDescriptorsForSpecies DESCRIPTOR_DIR_paged (descriptor_json class_net) (Str (str ''c'')) class_page) = [str ''y'', str ''x'']"
    unfolding fst_load fst_load_uncached fst_try_load fst_fetchJson paths
    by (simp_all add: class_page_def blank_page_def class_net_def normalizeDescriptorList_def
        descriptor_keys_def descriptor_out_def uniq_def js_trim_def is_js_space_def str_def)
  have sp: "species class_item = Str (str ''b'')"
    by (simp add: class_item_def)
  have others: "filter (\<lambda>s. Str s \<noteq> Str (str ''b'')) [str ''a'', str ''b'', str ''c''] = [str ''a'', str ''c'']"
    by (simp add: str_def)
  have only: "class_only [str ''x''] [[str ''x''], [str ''y'', str ''x'']] = [str ''y'']"
    by (simp add: class_only_def keep_first_Cons keep_first_Nil str_def)
  from class_only_descriptors
         [where item = class_item and cls = "str ''0''" and p = class_page
            and sl = "[str ''a'', str ''b'', str ''c'']" and net = class_net
            and own = "[]" and siblings = "[]"] h
  have "speciesList (snd (renderDescriptors_paged class_net class_item class_page)) = renderList [str ''x'']"
    and "classList (snd (renderDescriptors_paged class_net class_item class_page)) = renderList [str ''y'']"
    unfolding sp others load list.map only by blast+
  moreover from class_only_descriptors
         [where item = unnamed_class_item and cls = "[]" and p = unnamed_class_page
            and sl = "[]" and net = class_net and own = "[]" and siblings = "[]"] u
  have "classList (snd (renderDescriptors_paged class_net unnamed_class_item unnamed_class_page)) = renderList []"
    by blast
  ultimately show ?thesis
    using h u by (simp add: renderList_def)
qed

text \<open>
  Claim C9.  When the request for the image index fails, or it succeeds and the request
  for the class map fails, \<open>main\<close> throws the error of \<open>fetchJson\<close>; the script then
  logs the error and writes \<open>Error:\<close> and its message into the meta area, and nothing is
  rendered.  When both load, \<open>main\<close> of the flat-strip file throws nothing and logs no
  error, and the image list is the loaded one without the entries whose image path or
  species is missing or empty.
\<close>

theorem manifest_failure_is_reported:
  "(fetch_fails index_path (images_index_json net) e \<longrightarrow>
      fst (main_flat net p) = Some e \<and>
      start_flat net p =
        p\<lparr>requests := requests p @ [index_path],
          console_error := console_error p @ [e],
          meta := str ''Error: '' @ message e\<rparr> \<and>
      fst (main_paged net p) = Some e \<and>
      start_paged net p =
        p\<lparr>requests := requests p @ [index_path],
          console_error := console_error p @ [e],
          meta := str ''Error: '' @ message e\<rparr>) \<and>
   (fetch_yields (images_index_json net) its \<and>
    fetch_fails classes_path (class_to_species_json net) e \<longrightarrow>
      fst (main_flat net p) = Some e \<and>
      start_flat net p =
        p\<lparr>requests := requests p @ [index_path, classes_path], items := its,
          console_error := console_error p @ [e],
          meta := str ''Error: '' @ message e\<rparr> \<and>
      fst (main_paged net p) = Some e \<and>
      start_paged net p =
        p\<lparr>requests := requests p @ [index_path, classes_path], items := its,
          console_error := console_error p @ [e],
          meta := str ''Error: '' @ message e\<rparr>) \<and>
   (fetch_yields (images_index_json net) its \<and>
    fetch_yields (class_to_species_json net) m \<longrightarrow>
      fst (main_flat net p) = None \<and>
      items (start_flat net p) = filter valid_entry its \<and>
      console_error (start_flat net p) = console_error p \<and>
      items (start_paged net p) = filter valid_entry its) \<and>
   valid_entry x = (\<exists>a b. image_path x = Str a \<and> a \<noteq> [] \<and> species x = Str b \<and> b \<noteq> [])"
proof -
  have first: "fst (main_flat net p) = Some e \<and>
      start_flat net p =
        p\<lparr>requests := requests p @ [index_path],
          console_error := console_error p @ [e],
          meta := str ''Error: '' @ message e\<rparr> \<and>
      fst (main_paged net p) = Some e \<and>
      start_paged net p =
        p\<lparr>requests := requests p @ [index_path],
          console_error := console_error p @ [e],
          meta := str ''Error: '' @ message e\<rparr>"
    if "fetch_fails index_path (images_index_json net) e"
    by (simp add: start_flat_def start_paged_def main_flat_first_fails [OF that]
        main_paged_first_fails [OF that])
  have second: "fst (main_flat net p) = Some e \<and>
      start_flat net p =
        p\<lparr>requests := requests p @ [index_path, classes_path], items := its,
          console_error := console_error p @ [e],
          meta := str ''Error: '' @ message e\<rparr> \<and>
      fst (main_paged net p) = Some e \<and>
      start_paged net p =
        p\<lparr>requests := requests p @ [index_path, classes_path], items := its,
          console_error := console_error p @ [e],
          meta := str ''Error: '' @ message e\<rparr>"
    if "fetch_yields (images_index_json net) its"
      "fetch_fails classes_path (class_to_species_json net) e"
    by (simp add: start_flat_def start_paged_def main_flat_second_fails [OF that]
        main_paged_second_fails [OF that])
  have third: "fst (main_flat net p) = None \<and>
      items (start_flat net p) = filter valid_entry its \<and>
      console_error (start_flat net p) = console_error p \<and>
      items (start_paged net p) = filter valid_entry its"
    if "fetch_yields (images_index_json net) its" "fetch_yields (class_to_species_json net) m"
    by (simp add: start_flat_def start_paged_def main_flat_loaded [OF that]
        main_paged_loaded [OF that] nav_render_flat nav_render_paged console_error_render_flat
        split_def split: option.splits)
  from first second third valid_entry_iff [of x] show ?thesis by blast
qed

theorem manifest_failure_is_reported_witness:
  "fetch_fails index_path (images_index_json not_found)
     (Error (str ''Failed to fetch data/images_index.json: 404'')) \<and>
   start_flat not_found blank_page =
     blank_page\<lparr>requests := [str ''data/images_index.json''],
                 console_error := [Error (str ''Failed to fetch data/images_index.json: 404'')],
                 meta := str ''Error: Failed to fetch data/images_index.json: 404''\<rparr> \<and>
   fetch_yields (images_index_json class_net) [class_item,
       \<lparr>image_path = Str [], species = Str (str ''a''), class_name = Str (str ''0'')\<rparr>,
       \<lparr>image_path = Str (str ''img/c.jpg''), species = Undefined, class_name = Undefined\<rparr>] \<and>
   fetch_yields (class_to_species_json class_net) class_map \<and>
   items (start_flat class_net blank_page) = [class_item] \<and>
   items (start_paged class_net blank_page) = [class_item] \<and>
   console_error (start_flat class_net blank_page) = []"
proof -
  let ?e = "Error (str ''Failed to fetch data/images_index.json: 404'')"
  let ?its = "[class_item,
       \<lparr>image_path = Str [], species = Str (str ''a''), class_name = Str (str ''0'')\<rparr>,
       \<lparr>image_path = Str (str ''img/c.jpg''), species = Undefined, class_name = Undefined\<rparr>]"
  have ip: "index_path = str ''data/images_index.json''"
    by (simp add: index_path_def DATA_DIR_def str_def)
  have f: "fetch_fails index_path (images_index_json not_found) ?e"
    by (simp add: fetch_fails_def not_found_def ip dec.simps str_def)
  have y: "fetch_yields (images_index_json class_net) ?its"
    "fetch_yields (class_to_species_json class_net) class_map"
    by (simp_all add: fetch_yields_def class_net_def)
  have v: "filter valid_entry ?its = [class_item]"
    by (simp add: valid_entry_def class_item_def str_def)
  have m: "str ''Error: '' @ message ?e = str ''Error: Failed to fetch data/images_index.json: 404''"
    by (simp add: str_def)
  from manifest_failure_is_reported
         [where net = not_found and e = ?e and p = blank_page and its = ?its and m = class_map] f
  have "start_flat not_found blank_page =
     blank_page\<lparr>requests := requests blank_page @ [index_path],
                 console_error := console_error blank_page @ [?e],
                 meta := str ''Error: '' @ message ?e\<rparr>"
    by blast
  moreover from manifest_failure_is_reported
         [where net = class_net and e = ?e and p = blank_page and its = ?its and m = class_map] y
  have "items (start_flat class_net blank_page) = filter valid_entry ?its"
    and "items (start_paged class_net blank_page) = filter valid_entry ?its"
    and "console_error (start_flat class_net blank_page) = console_error blank_page"
    by blast+
  ultimately show ?thesis
    using f y unfolding v m ip by (simp add: blank_page_def)
qed

text \<open>
  Claim C10, as amended.  The flat-strip file badges row \<open>i\<close> of a non-empty descriptor
  list with \<open>toColLabel i\<close>.  The labels are the spreadsheet column names: A for 0, Z
  for 25, AA for 26; every label consists of capital letters.  For an argument below
  \<open>2 ^ 53\<close> the label reads back in bijective base 26 as the argument plus 1, so
  \<open>toColLabel\<close> is injective on the integers below \<open>2 ^ 53\<close>, and the rows of a list
  (an array has fewer than \<open>2 ^ 32\<close> elements) have distinct labels.
\<close>

theorem column_labels_distinct:
  "toColLabel 0 = str ''A'' \<and> toColLabel 25 = str ''Z'' \<and> toColLabel 26 = str ''AA'' \<and>
   inj_on toColLabel {..<2 ^ 53} \<and>
   (n < 2 ^ 53 \<longrightarrow> col_number (toColLabel n) = n + 1) \<and>
   set (toColLabel n) \<subseteq> {65..90} \<and>
   (descs \<noteq> [] \<longrightarrow>
      renderDescriptorList descs
        = map (\<lambda>i. Li_row (toColLabel i) (descs ! i)) [0..<length descs]) \<and>
   (length descs \<le> 2 ^ 53 \<longrightarrow> distinct (map toColLabel [0..<length descs]))"
proof -
  have letters: "set (toColLabel n) \<subseteq> {65..90}"
    unfolding toColLabel_def by (rule letters_loop)
  have rows: "renderDescriptorList descs
        = map (\<lambda>i. Li_row (toColLabel i) (descs ! i)) [0..<length descs]" if "descs \<noteq> []"
    using that by (simp add: renderDescriptorList_def descRows_map)
  from toColLabel_examples inj_on_toColLabel col_number_toColLabel [of n] letters rows
    distinct_labels [of "length descs"]
  show ?thesis by blast
qed

text \<open>
  The claim as first stated, injectivity on all non-negative integers, fails where
  \<open>n0 + 1\<close> is rounded: \<open>2 ^ 53 - 1\<close> and \<open>2 ^ 53\<close> get the same label.
\<close>

theorem column_label_collision_counterexample:
  "(9007199254740991 :: nat) \<noteq> 9007199254740992 \<and>
   toColLabel 9007199254740991 = toColLabel 9007199254740992"
  by (simp add: toColLabel_def to_double_small to_double_tie)

theorem column_labels_distinct_witness:
  "[str ''red'', str ''tall''] \<noteq> [] \<and>
   renderDescriptorList [str ''red'', str ''tall'']
     = [Li_row (str ''A'') (str ''red''), Li_row (str ''B'') (str ''tall'')] \<and>
   (27 :: nat) < 2 ^ 53 \<and> col_number (toColLabel 27) = 28 \<and>
   length [str ''red'', str ''tall''] \<le> 2 ^ 53 \<and>
   distinct (map toColLabel [0..<length [str ''red'', str ''tall'']])"
proof -
  have ne: "[str ''red'', str ''tall''] \<noteq> []" by simp
  have small: "(27 :: nat) < 2 ^ 53" "length [str ''red'', str ''tall''] \<le> 2 ^ 53"
    by simp_all
  have b: "toColLabel (Suc 0) = str ''B''" "toColLabel 0 = str ''A''"
    by (simp_all add: toColLabel_small toColLabel_loop_exact_step toColLabel_loop_0 str_def)
  from column_labels_distinct [where n = 27 and descs = "[str ''red'', str ''tall'']"] ne small
  have "renderDescriptorList [str ''red'', str ''tall'']
     = map (\<lambda>i. Li_row (toColLabel i) ([str ''red'', str ''tall''] ! i)) [0..<length [str ''red'', str ''tall'']]"
    and "col_number (toColLabel 27) = 27 + 1"
    and "distinct (map toColLabel [0..<length [str ''red'', str ''tall'']])"
    by blast+
  then show ?thesis
    using small by (simp add: b upt_rec)
qed

end
